theory Spec2Isabelle
  imports Complex_Main "HOL-Library.Log_Nat"
begin

section \<open>JavaScript numbers\<close>

text \<open>
  The helpers of \<^verbatim>\<open>AppController\<close> compute on JavaScript numbers, which are IEEE 754
  double-precision values: \<^verbatim>\<open>NaN\<close>, the two infinities, the negative zero, and the
  finite values. A finite value other than \<^verbatim>\<open>-0\<close> is written \<open>Fin x\<close> with the real
  number \<open>x\<close> it denotes, \<open>Fin 0\<close> being \<^verbatim>\<open>+0\<close>. Not every real is a double: the
  doubles are the reals that rounding leaves as they are (\<open>is_double\<close> below).
\<close>

datatype number = NaN | NInf | NZero | Fin real | PInf

subsection \<open>Rounding a real to a double\<close>

text \<open>
  Every arithmetic operation computes the exact real result and rounds it to the
  nearest double, a tie going to the double with an even significand. For \<open>x > 0\<close>,
  \<open>floor_log2 x\<close> is the integer \<open>k\<close> with \<open>2 powi k \<le> x < 2 powi (k + 1)\<close>; the doubles near
  \<open>x\<close> are the multiples of \<open>2\<close> to the power \<open>ulp_exponent x\<close>, which is \<open>k - 52\<close> (a
  significand of 53 bits) and never below \<open>-1074\<close> (the subnormal numbers). A result
  whose rounded magnitude reaches \<open>2 ^ 1024\<close> overflows to an infinity; a result that rounds
  to zero keeps its sign.
\<close>

definition floor_log2 :: "real \<Rightarrow> int" where
  "floor_log2 x =
     (if 1 \<le> x then bitlen \<lfloor>x\<rfloor> - 1
      else (let m = bitlen \<lfloor>1 / x\<rfloor> - 1 in if 1 / x = 2 powi m then - m else - m - 1))"

definition roundeven :: "real \<Rightarrow> int" where
  "roundeven q =
     (let f = \<lfloor>q\<rfloor>; d = q - of_int f
      in if d < 1 / 2 then f else if 1 / 2 < d then f + 1 else if even f then f else f + 1)"

definition ulp_exponent :: "real \<Rightarrow> int" where
  "ulp_exponent x = max (floor_log2 \<bar>x\<bar> - 52) (- 1074)"

definition round_real :: "real \<Rightarrow> real" where
  "round_real x =
     (if x = 0 then 0
      else of_int (roundeven (x / 2 powi ulp_exponent x)) * 2 powi ulp_exponent x)"

definition overflow_threshold :: real where
  "overflow_threshold = 2 ^ 1024"

definition round_double :: "real \<Rightarrow> number" where
  "round_double x =
     (let y = round_real x
      in if overflow_threshold \<le> y then PInf
         else if y \<le> - overflow_threshold then NInf
         else if y = 0 then (if x < 0 then NZero else Fin 0)
         else Fin y)"

definition is_double :: "real \<Rightarrow> bool" where
  "is_double x = (round_double x = Fin x)"

subsection \<open>Signs, zeros and infinities\<close>

fun real_of :: "number \<Rightarrow> real" where
  "real_of (Fin x) = x"
| "real_of v = 0"

fun negative :: "number \<Rightarrow> bool" where
  "negative NInf = True"
| "negative NZero = True"
| "negative (Fin x) = (x < 0)"
| "negative v = False"

fun is_zero :: "number \<Rightarrow> bool" where
  "is_zero NZero = True"
| "is_zero (Fin x) = (x = 0)"
| "is_zero v = False"

fun is_inf :: "number \<Rightarrow> bool" where
  "is_inf NInf = True"
| "is_inf PInf = True"
| "is_inf v = False"

definition signed_zero :: "bool \<Rightarrow> number" where
  "signed_zero s = (if s then NZero else Fin 0)"

definition signed_inf :: "bool \<Rightarrow> number" where
  "signed_inf s = (if s then NInf else PInf)"

fun num_neg :: "number \<Rightarrow> number" where
  "num_neg NaN = NaN"
| "num_neg NInf = PInf"
| "num_neg PInf = NInf"
| "num_neg NZero = Fin 0"
| "num_neg (Fin x) = (if x = 0 then NZero else Fin (- x))"

subsection \<open>Comparison\<close>

text \<open>
  The relational operator \<^verbatim>\<open><\<close> is false as soon as one operand is \<^verbatim>\<open>NaN\<close>, and the two
  zeros are equal. Strict equality \<^verbatim>\<open>===\<close> of two numbers is false on \<^verbatim>\<open>NaN\<close> and true
  on the two zeros.
\<close>

fun num_lt :: "number \<Rightarrow> number \<Rightarrow> bool" where
  "num_lt NaN y = False"
| "num_lt x NaN = False"
| "num_lt x NInf = False"
| "num_lt PInf y = False"
| "num_lt NInf y = True"
| "num_lt x PInf = True"
| "num_lt x y = (real_of x < real_of y)"

definition strict_equal :: "number \<Rightarrow> number \<Rightarrow> bool" where
  "strict_equal x y = (x \<noteq> NaN \<and> y \<noteq> NaN \<and> (x = y \<or> (is_zero x \<and> is_zero y)))"

subsection \<open>Arithmetic\<close>

text \<open>
  The operators \<^verbatim>\<open>+\<close>, \<^verbatim>\<open>-\<close>, \<^verbatim>\<open>*\<close> and \<^verbatim>\<open>/\<close>. A sum that is exactly zero is \<^verbatim>\<open>+0\<close>
  unless both summands are \<^verbatim>\<open>-0\<close>; \<open>x - y\<close> is \<open>x + (-y)\<close>; the sign of a product or
  quotient is negative when exactly one operand is negative, also for a zero or an
  infinity.
\<close>

definition num_add :: "number \<Rightarrow> number \<Rightarrow> number" where
  "num_add x y =
     (if x = NaN \<or> y = NaN then NaN
      else if is_inf x then (if is_inf y \<and> y \<noteq> x then NaN else x)
      else if is_inf y then y
      else if real_of x + real_of y = 0 then (if x = NZero \<and> y = NZero then NZero else Fin 0)
      else round_double (real_of x + real_of y))"

definition num_sub :: "number \<Rightarrow> number \<Rightarrow> number" where
  "num_sub x y = num_add x (num_neg y)"

definition num_mul :: "number \<Rightarrow> number \<Rightarrow> number" where
  "num_mul x y =
     (if x = NaN \<or> y = NaN then NaN
      else if is_inf x \<or> is_inf y
        then (if is_zero x \<or> is_zero y then NaN else signed_inf (negative x \<noteq> negative y))
      else if is_zero x \<or> is_zero y then signed_zero (negative x \<noteq> negative y)
      else round_double (real_of x * real_of y))"

definition num_div :: "number \<Rightarrow> number \<Rightarrow> number" where
  "num_div x y =
     (if x = NaN \<or> y = NaN then NaN
      else if is_inf x then (if is_inf y then NaN else signed_inf (negative x \<noteq> negative y))
      else if is_inf y then signed_zero (negative x \<noteq> negative y)
      else if is_zero y then (if is_zero x then NaN else signed_inf (negative x \<noteq> negative y))
      else if is_zero x then signed_zero (negative x \<noteq> negative y)
      else round_double (real_of x / real_of y))"

text \<open>
  \<^verbatim>\<open>Math.max\<close> and \<^verbatim>\<open>Math.min\<close> of two arguments return \<^verbatim>\<open>NaN\<close> when an argument is
  \<^verbatim>\<open>NaN\<close> and take \<^verbatim>\<open>+0\<close> to be larger than \<^verbatim>\<open>-0\<close>. \<^verbatim>\<open>Math.round\<close> returns the integer
  nearest to its argument, a tie going up; this is exact, the result being \<^verbatim>\<open>-0\<close> for
  an argument from \<open>-1/2\<close> up to \<^verbatim>\<open>-0\<close>; \<^verbatim>\<open>NaN\<close> and the infinities stay as they are.
\<close>

definition Math_max :: "number \<Rightarrow> number \<Rightarrow> number" where
  "Math_max x y =
     (if x = NaN \<or> y = NaN then NaN
      else if num_lt x y then y
      else if num_lt y x then x
      else if x = NZero then y else x)"

definition Math_min :: "number \<Rightarrow> number \<Rightarrow> number" where
  "Math_min x y =
     (if x = NaN \<or> y = NaN then NaN
      else if num_lt x y then x
      else if num_lt y x then y
      else if x = NZero then x else y)"

fun Math_round :: "number \<Rightarrow> number" where
  "Math_round (Fin x) =
     (if \<lfloor>x + 1 / 2\<rfloor> = 0 \<and> x < 0 then NZero else Fin (of_int \<lfloor>x + 1 / 2\<rfloor>))"
| "Math_round x = x"

section \<open>Colours and the value-mapping helpers\<close>

text \<open>
  Modelled from the spec: the class \<^verbatim>\<open>TileColor\<close> belongs to the tile SDK, which is
  loaded at run time and is not part of this repository. The spec describes it as an RGB
  value of three channels; \<^verbatim>\<open>interpolateColor\<close> reads the channels as \<^verbatim>\<open>r\<close>, \<^verbatim>\<open>g\<close>
  and \<^verbatim>\<open>b\<close>. \<^verbatim>\<open>new TileColor(x, y, z)\<close> is taken to store its three arguments.
\<close>

record TileColor =
  r :: number
  g :: number
  b :: number

definition new_TileColor :: "number \<Rightarrow> number \<Rightarrow> number \<Rightarrow> TileColor" where
  "new_TileColor x y z = \<lparr>r = x, g = y, b = z\<rparr>"

definition tempToColor :: "number \<Rightarrow> TileColor" where
  "tempToColor temp =
    (if num_lt temp (Fin 15) then new_TileColor (Fin 0) (Fin 0) (Fin 153)
     else if num_lt temp (Fin 20) then new_TileColor (Fin 0) (Fin 153) (Fin 153)
     else if num_lt temp (Fin 25) then new_TileColor (Fin 153) (Fin 153) (Fin 0)
     else if num_lt temp (Fin 30) then new_TileColor (Fin 153) (Fin 77) (Fin 0)
     else new_TileColor (Fin 153) (Fin 0) (Fin 0))"

definition uvToColor :: "number \<Rightarrow> TileColor" where
  "uvToColor uv =
    (if num_lt uv (Fin 3) then new_TileColor (Fin 153) (Fin 153) (Fin 153)
     else if num_lt uv (Fin 6) then new_TileColor (Fin 153) (Fin 153) (Fin 0)
     else if num_lt uv (Fin 8) then new_TileColor (Fin 153) (Fin 77) (Fin 0)
     else if num_lt uv (Fin 11) then new_TileColor (Fin 153) (Fin 0) (Fin 0)
     else new_TileColor (Fin 153) (Fin 0) (Fin 153))"

definition normalizeValue :: "number \<Rightarrow> number \<Rightarrow> number \<Rightarrow> number" where
  "normalizeValue val lo hi =
     Math_max (Fin 0) (Math_min (Fin 100)
       (num_mul (num_div (num_sub val lo) (num_sub hi lo)) (Fin 100)))"

definition interpolateColor :: "TileColor \<Rightarrow> TileColor \<Rightarrow> number \<Rightarrow> TileColor" where
  "interpolateColor color1 color2 factor =
     (let r' = Math_round (num_add (r color1) (num_mul factor (num_sub (r color2) (r color1))));
          g' = Math_round (num_add (g color1) (num_mul factor (num_sub (g color2) (g color1))));
          b' = Math_round (num_add (b color1) (num_mul factor (num_sub (b color2) (b color1))))
      in new_TileColor r' g' b')"

section \<open>Strings\<close>

text \<open>
  Strings are lists of bytes: the few characters of the log messages that are outside
  ASCII are written as their UTF-8 encoding, as they stand in the source file.
\<close>

definition check_mark :: string where
  "check_mark = [CHR 0xE2, CHR 0x9C, CHR 0x85]"

definition satellite_antenna :: string where
  "satellite_antenna = [CHR 0xF0, CHR 0x9F, CHR 0x93, CHR 0xA1]"

definition hourglass :: string where
  "hourglass = [CHR 0xE2, CHR 0x8F, CHR 0xB3]"

definition red_circle :: string where
  "red_circle = [CHR 0xF0, CHR 0x9F, CHR 0x94, CHR 0xB4]"

definition stopwatch :: string where
  "stopwatch = [CHR 0xE2, CHR 0x8F, CHR 0xB1, CHR 0xEF, CHR 0xB8, CHR 0x8F]"

definition light_bulb :: string where
  "light_bulb = [CHR 0xF0, CHR 0x9F, CHR 0x92, CHR 0xA1]"

text \<open>The decimal digits of an integer, as a template literal prints it.\<close>

fun digits :: "nat \<Rightarrow> string" where
  "digits n = (if n < 10 then [char_of (48 + n)] else digits (n div 10) @ [char_of (48 + n mod 10)])"

definition toString :: "int \<Rightarrow> string" where
  "toString i = (if i < 0 then CHR ''-'' # digits (nat (- i)) else digits (nat i))"

section \<open>The controller and its environment\<close>

text \<open>
  The two SDK objects are opaque handles. Of the enumerations of the tile SDK only the
  members the controller names are needed.
\<close>

datatype ITilesBLEManager = ITilesBLEManager nat

datatype SerialService = SerialService nat

datatype callback = Callback nat

datatype SELECT_ITILE = SELECT_ITILE_ALL

datatype GAME_STATUS = GAME_STATUS_IN_GAME

record LogEntry =
  timestamp :: string
  message :: string
  type :: string

record AppController =
  kiwriousConnected :: bool
  itilesConnected :: bool
  iTilesManager :: "ITilesBLEManager option"
  serialService :: "SerialService option"
  currentSensorData :: "string option"
  logCallbacks :: "callback list"
  onSensorDataCallback :: "callback option"

definition new_AppController :: AppController where
  "new_AppController =
     \<lparr>kiwriousConnected = False, itilesConnected = False, iTilesManager = None,
      serialService = None, currentSensorData = None, logCallbacks = [],
      onSensorDataCallback = None\<rparr>"

text \<open>
  The calls the controller makes on the two SDK objects: the commands of the tile
  manager, the manager's own \<^verbatim>\<open>disconnect\<close>, and \<^verbatim>\<open>triggerStopReading\<close> of the serial
  service.
\<close>

datatype sdk_call =
    queryOnlineTiles SELECT_ITILE
  | confirmAssignment SELECT_ITILE
  | gameInProgress GAME_STATUS nat
  | queryPairedTiles
  | manager_disconnect
  | triggerStopReading

text \<open>A thrown value: an \<^verbatim>\<open>Error\<close> object with its message.\<close>

datatype error = Error string

fun error_message :: "error \<Rightarrow> string" where
  "error_message (Error m) = m"

text \<open>
  Everything the controller does to the outside is recorded, in order, in a trace: a log
  subscriber called with an entry, a line written to the console, a call on an SDK
  object, a \<^verbatim>\<open>setTimeout\<close> pause that has elapsed, and an entry into
  \<^verbatim>\<open>updateConnectionStatus\<close>.
\<close>

datatype event =
    Subscriber callback LogEntry
  | Console string
  | Sdk sdk_call
  | Waited nat
  | StatusUpdate

text \<open>
  The environment decides what the program cannot: whether an SDK call throws (and
  what), the local time \<^verbatim>\<open>new Date().toLocaleTimeString()\<close> returns after a given
  history, and how many times the one-second countdown interval fires before the
  20-second wait of the pairing sequence ends. Within one run every SDK call is made at
  most once, so an outcome per call describes every behaviour of the SDK in that run.
  Log subscribers and the DOM are taken to return normally and not to call back into the
  controller, and a method runs to its end without a callback of the SDKs in between.
\<close>

record env =
  sdk :: "sdk_call \<Rightarrow> error option"
  toLocaleTimeString :: "event list \<Rightarrow> string"
  interval_ticks :: nat

text \<open>
  The state: the controller object, the \<^verbatim>\<open>className\<close> of each element of the page
  (by element id; \<open>None\<close> where there is no such element), and the trace.
\<close>

record world =
  ctrl :: AppController
  document :: "string \<Rightarrow> string option"
  trace :: "event list"

definition emit :: "event \<Rightarrow> world \<Rightarrow> world" where
  "emit e w = w\<lparr>trace := trace w @ [e]\<rparr>"

subsection \<open>Logging\<close>

text \<open>\<^verbatim>\<open>log(message, type = 'info')\<close>: an omitted \<^verbatim>\<open>type\<close> is \<open>None\<close>.\<close>

definition log_msg :: "env \<Rightarrow> string \<Rightarrow> string option \<Rightarrow> world \<Rightarrow> world" where
  "log_msg e msg ty w =
     (let ts = toLocaleTimeString e (trace w);
          logEntry = \<lparr>timestamp = ts, message = msg,
                      type = (case ty of None \<Rightarrow> ''info'' | Some t \<Rightarrow> t)\<rparr>;
          w1 = foldl (\<lambda>w' cb. emit (Subscriber cb logEntry) w') w (logCallbacks (ctrl w))
      in emit (Console (''['' @ ts @ ''] '' @ msg)) w1)"

definition onLog :: "callback \<Rightarrow> world \<Rightarrow> world" where
  "onLog cb w = w\<lparr>ctrl := (ctrl w)\<lparr>logCallbacks := logCallbacks (ctrl w) @ [cb]\<rparr>\<rparr>"

subsection \<open>The status display\<close>

definition updateConnectionStatus :: "world \<Rightarrow> world" where
  "updateConnectionStatus w0 =
     (let w = emit StatusUpdate w0;
          kiwriousDot = document w ''kiwriousStatus'';
          itilesDot = document w ''itilesStatus'';
          w1 = (if kiwriousDot \<noteq> None
                then w\<lparr>document := (document w)(''kiwriousStatus'' \<mapsto>
                       (if kiwriousConnected (ctrl w) then ''status-dot connected''
                        else ''status-dot''))\<rparr>
                else w)
      in if itilesDot \<noteq> None
         then w1\<lparr>document := (document w1)(''itilesStatus'' \<mapsto>
                (if itilesConnected (ctrl w1) then ''status-dot connected''
                 else ''status-dot''))\<rparr>
         else w1)"

subsection \<open>Statements that may throw\<close>

text \<open>
  A statement takes the state and returns the new state with either the thrown error
  (\<open>Inl\<close>) or a value. \<open>block\<close> runs statements in order and stops at the first that
  throws; \<open>try_catch\<close> hands a thrown error to its handler.
\<close>

type_synonym 'a action = "world \<Rightarrow> (error + 'a) \<times> world"

definition succeed :: "'a \<Rightarrow> 'a action" where
  "succeed x w = (Inr x, w)"

definition throw :: "error \<Rightarrow> 'a action" where
  "throw e w = (Inl e, w)"

definition lift :: "(world \<Rightarrow> world) \<Rightarrow> unit action" where
  "lift f w = (Inr (), f w)"

definition andThen :: "'a action \<Rightarrow> ('a \<Rightarrow> 'b action) \<Rightarrow> 'b action" where
  "andThen m f w = (case m w of (Inl e, w') \<Rightarrow> (Inl e, w') | (Inr x, w') \<Rightarrow> f x w')"

fun block :: "unit action list \<Rightarrow> unit action" where
  "block [] = succeed ()"
| "block (s # ss) = andThen s (\<lambda>_. block ss)"

definition try_catch :: "'a action \<Rightarrow> (error \<Rightarrow> 'a action) \<Rightarrow> 'a action" where
  "try_catch m h w = (case m w of (Inl e, w') \<Rightarrow> h e w' | (Inr x, w') \<Rightarrow> (Inr x, w'))"

definition when_true :: "(world \<Rightarrow> bool) \<Rightarrow> unit action \<Rightarrow> unit action" where
  "when_true c m w = (if c w then m w else (Inr (), w))"

text \<open>A call on an SDK object: it is made, then it returns or throws as the environment says.\<close>

definition await_call :: "env \<Rightarrow> sdk_call \<Rightarrow> unit action" where
  "await_call e c w =
     (case sdk e c of None \<Rightarrow> (Inr (), emit (Sdk c) w) | Some err \<Rightarrow> (Inl err, emit (Sdk c) w))"

text \<open>\<^verbatim>\<open>await new Promise(r => setTimeout(r, ms))\<close>\<close>

definition sleep :: "nat \<Rightarrow> unit action" where
  "sleep ms = lift (emit (Waited ms))"

subsection \<open>The connection-state listener\<close>

text \<open>
  The arrow function that \<^verbatim>\<open>connectITiles\<close> passes to
  \<^verbatim>\<open>onConnectionStateChanged\<close>; the tile SDK calls it with a state code. The rest of
  \<^verbatim>\<open>connectITiles\<close> and \<^verbatim>\<open>connectKiwrious\<close> (loading an SDK, asking for a device,
  connecting) is not needed by the properties below and is not embedded.
\<close>

definition connectionStateListener :: "env \<Rightarrow> number \<Rightarrow> world \<Rightarrow> world" where
  "connectionStateListener e state w =
     (if strict_equal state (Fin 2) then
        (let w1 = w\<lparr>ctrl := (ctrl w)\<lparr>itilesConnected := True\<rparr>\<rparr>;
             w2 = log_msg e (check_mark @ '' iTiles connected!'') (Some ''success'') w1
         in updateConnectionStatus w2)
      else if strict_equal state (Fin 0) then
        (let w1 = w\<lparr>ctrl := (ctrl w)\<lparr>itilesConnected := False\<rparr>\<rparr>;
             w2 = log_msg e ''iTiles disconnected'' (Some ''warning'') w1
         in updateConnectionStatus w2)
      else w)"

subsection \<open>Pairing the child tiles\<close>

text \<open>
  The countdown interval: each firing logs the seconds left and counts down, and the
  interval clears itself once the count is below zero. \<open>n\<close> is the number of firings the
  environment lets happen before \<^verbatim>\<open>clearInterval\<close> after the 20-second wait.
\<close>

fun countdownInterval :: "env \<Rightarrow> nat \<Rightarrow> int \<Rightarrow> world \<Rightarrow> world" where
  "countdownInterval e 0 countdown w = w"
| "countdownInterval e (Suc n) countdown w =
     (let w1 = log_msg e (stopwatch @ ''  '' @ toString countdown @ '' seconds remaining...'')
                 (Some ''info'') w;
          countdown' = countdown - 1
      in if countdown' < 0 then w1 else countdownInterval e n countdown' w1)"

text \<open>\<^verbatim>\<open>for (let i = 1; i <= 6; i++) { ... }\<close>, from the current value of \<open>i\<close>.\<close>

function for_tiles :: "env \<Rightarrow> nat \<Rightarrow> unit action" where
  "for_tiles e i =
     (if i \<le> 6
      then andThen (block [await_call e (gameInProgress GAME_STATUS_IN_GAME i), sleep 500])
             (\<lambda>_. for_tiles e (i + 1))
      else succeed ())"
  by pat_completeness auto
termination
  by (relation "measure (\<lambda>(e, i). 7 - i)") auto

definition pairChildTiles_try :: "env \<Rightarrow> bool action" where
  "pairChildTiles_try e =
     andThen (block [
       when_true (\<lambda>w. iTilesManager (ctrl w) = None)
         (throw (Error ''iTiles manager not initialized. Connect to master tile first.'')),
       when_true (\<lambda>w. \<not> itilesConnected (ctrl w))
         (throw (Error ''Master tile not connected. Connect to iTiles first.'')),
       lift (log_msg e (satellite_antenna @ '' Starting automatic tile discovery and pairing...'')
               (Some ''info'')),
       lift (log_msg e (hourglass @ '' This will take approximately 20-25 seconds'')
               (Some ''warning'')),
       lift (log_msg e (red_circle @ '' Make sure all standard tiles are powered on and nearby!'')
               (Some ''warning'')),
       lift (log_msg e ''Step 1: Discovering online tiles...'' (Some ''info'')),
       await_call e (queryOnlineTiles SELECT_ITILE_ALL),
       lift (log_msg e ''Step 2: Waiting for tiles to pair (20 seconds)...'' (Some ''info'')),
       lift (countdownInterval e (interval_ticks e) 20),
       sleep 20000,
       lift (log_msg e ''Step 3: Confirming tile assignments...'' (Some ''info'')),
       await_call e (confirmAssignment SELECT_ITILE_ALL),
       sleep 500,
       lift (log_msg e ''Step 4: Activating tiles...'' (Some ''info'')),
       for_tiles e 1,
       lift (log_msg e ''Step 5: Verifying paired tiles...'' (Some ''info'')),
       sleep 1000,
       await_call e queryPairedTiles,
       lift (log_msg e (check_mark @ '' Pairing sequence complete!'') (Some ''success'')),
       lift (log_msg e (light_bulb @ '' Check above for the list of paired tiles.'')
               (Some ''info''))])
     (\<lambda>_. succeed True)"

definition pairChildTiles_catch :: "env \<Rightarrow> error \<Rightarrow> bool action" where
  "pairChildTiles_catch e err =
     andThen (lift (log_msg e (''Child tile pairing error: '' @ error_message err) (Some ''error'')))
       (\<lambda>_. throw err)"

definition pairChildTiles :: "env \<Rightarrow> bool action" where
  "pairChildTiles e = try_catch (pairChildTiles_try e) (pairChildTiles_catch e)"

subsection \<open>Disconnecting\<close>

definition disconnect :: "env \<Rightarrow> unit action" where
  "disconnect e =
     block [
       when_true (\<lambda>w. iTilesManager (ctrl w) \<noteq> None \<and> itilesConnected (ctrl w))
         (block [await_call e manager_disconnect,
                 lift (\<lambda>w. w\<lparr>ctrl := (ctrl w)\<lparr>itilesConnected := False\<rparr>\<rparr>)]),
       when_true (\<lambda>w. serialService (ctrl w) \<noteq> None \<and> kiwriousConnected (ctrl w))
         (block [await_call e triggerStopReading,
                 lift (\<lambda>w. w\<lparr>ctrl := (ctrl w)\<lparr>kiwriousConnected := False\<rparr>\<rparr>)]),
       lift updateConnectionStatus,
       lift (log_msg e ''Disconnected from all devices'' (Some ''info''))]"

subsection \<open>Reading a trace\<close>

text \<open>The SDK calls of a trace, in order, and the number of status updates in it.\<close>

fun sdk_calls :: "event list \<Rightarrow> sdk_call list" where
  "sdk_calls [] = []"
| "sdk_calls (Sdk c # es) = c # sdk_calls es"
| "sdk_calls (_ # es) = sdk_calls es"

definition status_updates :: "event list \<Rightarrow> nat" where
  "status_updates es = length (filter (\<lambda>ev. ev = StatusUpdate) es)"

section \<open>Vocabulary of the properties\<close>

text \<open>The colours the two mapping helpers return, named as the comments of the source do.\<close>

definition color_blue :: TileColor where
  "color_blue = \<lparr>r = Fin 0, g = Fin 0, b = Fin 153\<rparr>"

definition color_cyan :: TileColor where
  "color_cyan = \<lparr>r = Fin 0, g = Fin 153, b = Fin 153\<rparr>"

definition color_yellow :: TileColor where
  "color_yellow = \<lparr>r = Fin 153, g = Fin 153, b = Fin 0\<rparr>"

definition color_orange :: TileColor where
  "color_orange = \<lparr>r = Fin 153, g = Fin 77, b = Fin 0\<rparr>"

definition color_red :: TileColor where
  "color_red = \<lparr>r = Fin 153, g = Fin 0, b = Fin 0\<rparr>"

definition color_white :: TileColor where
  "color_white = \<lparr>r = Fin 153, g = Fin 153, b = Fin 153\<rparr>"

definition color_magenta :: TileColor where
  "color_magenta = \<lparr>r = Fin 153, g = Fin 0, b = Fin 153\<rparr>"

text \<open>The buckets of each helper in ascending order, and the place of a colour in such a list.\<close>

definition temp_palette :: "TileColor list" where
  "temp_palette = [color_blue, color_cyan, color_yellow, color_orange, color_red]"

definition uv_palette :: "TileColor list" where
  "uv_palette = [color_white, color_yellow, color_orange, color_red, color_magenta]"

fun position :: "'a list \<Rightarrow> 'a \<Rightarrow> nat" where
  "position [] x = 0"
| "position (y # ys) x = (if x = y then 0 else Suc (position ys x))"

text \<open>A number that lies in the interval from 0 to 100.\<close>

definition in_0_100 :: "number \<Rightarrow> bool" where
  "in_0_100 v = (case v of Fin y \<Rightarrow> 0 \<le> y \<and> y \<le> 100 | _ \<Rightarrow> False)"

text \<open>A channel that is an integer from 0 to 255, and a colour of three such channels.\<close>

definition valid_channel :: "number \<Rightarrow> bool" where
  "valid_channel x =
     (case x of Fin y \<Rightarrow> 0 \<le> y \<and> y \<le> 255 \<and> of_int \<lfloor>y\<rfloor> = y | _ \<Rightarrow> False)"

definition valid_color :: "TileColor \<Rightarrow> bool" where
  "valid_color c = (valid_channel (r c) \<and> valid_channel (g c) \<and> valid_channel (b c))"

text \<open>In a comparison the negative zero behaves as zero.\<close>

definition plus_zero :: "number \<Rightarrow> number" where
  "plus_zero v = (if v = NZero then Fin 0 else v)"

text \<open>
  A number that is an infinity or \<^verbatim>\<open>NaN\<close> is not finite; a number is representable
  when it is a value a JavaScript number can hold, that is, when its finite value is a
  double.
\<close>

definition is_finite :: "number \<Rightarrow> bool" where
  "is_finite v = (case v of Fin x \<Rightarrow> True | NZero \<Rightarrow> True | _ \<Rightarrow> False)"

definition representable :: "number \<Rightarrow> bool" where
  "representable v = (case v of Fin x \<Rightarrow> is_double x | _ \<Rightarrow> True)"

text \<open>
  The doubles are multiples of the smallest subnormal number; \<open>at_least c t\<close> says that
  \<open>t\<close> is \<^verbatim>\<open>+Infinity\<close> or a finite value not below \<open>c\<close>.
\<close>

definition on_grid :: "real \<Rightarrow> bool" where
  "on_grid x = (\<exists>n::int. x = of_int n * 2 powi (- 1074))"

definition at_least :: "real \<Rightarrow> number \<Rightarrow> bool" where
  "at_least c t = (case t of PInf \<Rightarrow> True | Fin y \<Rightarrow> c \<le> y | _ \<Rightarrow> False)"

text \<open>
  The value that \<^verbatim>\<open>normalizeValue\<close> clamps: \<open>v\<close> rescaled from \<open>lo..hi\<close> to 0..100 in
  double arithmetic, the two differences, the quotient and the product each rounded to a
  double.
\<close>

definition rescale :: "number \<Rightarrow> number \<Rightarrow> number \<Rightarrow> number" where
  "rescale v lo hi = num_mul (num_div (num_sub v lo) (num_sub hi lo)) (Fin 100)"

text \<open>
  The linear interpolation from \<open>x\<close> to \<open>y\<close> at \<open>t\<close> as the source computes it, in double
  arithmetic: the difference, the product and the sum are each rounded to a double.
\<close>

definition double_lerp :: "number \<Rightarrow> number \<Rightarrow> number \<Rightarrow> number" where
  "double_lerp x y t = num_add x (num_mul t (num_sub y x))"

text \<open>
  The double nearest to 0.3, which is what the literal \<^verbatim>\<open>0.3\<close> denotes, and two colours
  to interpolate between.
\<close>

definition three_tenths :: real where
  "three_tenths = 5404319552844595 / 18014398509481984"

definition color_black :: TileColor where
  "color_black = \<lparr>r = Fin 0, g = Fin 0, b = Fin 0\<rparr>"

definition color_5_255_0 :: TileColor where
  "color_5_255_0 = \<lparr>r = Fin 5, g = Fin 255, b = Fin 0\<rparr>"

text \<open>The device commands of a complete pairing sequence.\<close>

definition pairing_commands :: "sdk_call list" where
  "pairing_commands =
     [queryOnlineTiles SELECT_ITILE_ALL,
      confirmAssignment SELECT_ITILE_ALL,
      gameInProgress GAME_STATUS_IN_GAME 1,
      gameInProgress GAME_STATUS_IN_GAME 2,
      gameInProgress GAME_STATUS_IN_GAME 3,
      gameInProgress GAME_STATUS_IN_GAME 4,
      gameInProgress GAME_STATUS_IN_GAME 5,
      gameInProgress GAME_STATUS_IN_GAME 6,
      queryPairedTiles]"

text \<open>A session is torn down by \<^const>\<open>disconnect\<close> when its handle and its flag are both set.\<close>

definition tile_session :: "world \<Rightarrow> bool" where
  "tile_session w = (iTilesManager (ctrl w) \<noteq> None \<and> itilesConnected (ctrl w))"

definition sensor_session :: "world \<Rightarrow> bool" where
  "sensor_session w = (serialService (ctrl w) \<noteq> None \<and> kiwriousConnected (ctrl w))"

text \<open>The state after a teardown that returned: the call is made and the flag is cleared.\<close>

definition after_tile_teardown :: "world \<Rightarrow> world" where
  "after_tile_teardown w =
     (if tile_session w
      then (emit (Sdk manager_disconnect) w)\<lparr>ctrl := (ctrl w)\<lparr>itilesConnected := False\<rparr>\<rparr>
      else w)"

definition after_sensor_teardown :: "world \<Rightarrow> world" where
  "after_sensor_teardown w =
     (if sensor_session w
      then (emit (Sdk triggerStopReading) w)\<lparr>ctrl := (ctrl w)\<lparr>kiwriousConnected := False\<rparr>\<rparr>
      else w)"

subsection \<open>Example environments and states\<close>

definition example_env :: env where
  "example_env =
     \<lparr>sdk = (\<lambda>c. None), toLocaleTimeString = (\<lambda>h. ''10:15:00''), interval_ticks = 19\<rparr>"

definition env_third_tile_throws :: env where
  "env_third_tile_throws =
     \<lparr>sdk = (\<lambda>c. if c = gameInProgress GAME_STATUS_IN_GAME 3
                  then Some (Error ''GATT operation failed'') else None),
      toLocaleTimeString = (\<lambda>h. ''10:15:00''), interval_ticks = 19\<rparr>"

definition env_tile_teardown_throws :: env where
  "env_tile_teardown_throws =
     \<lparr>sdk = (\<lambda>c. if c = manager_disconnect
                  then Some (Error ''GATT Server is disconnected'') else None),
      toLocaleTimeString = (\<lambda>h. ''10:15:00''), interval_ticks = 19\<rparr>"

definition env_sensor_teardown_throws :: env where
  "env_sensor_teardown_throws =
     \<lparr>sdk = (\<lambda>c. if c = triggerStopReading
                  then Some (Error ''The port is closed'') else None),
      toLocaleTimeString = (\<lambda>h. ''10:15:00''), interval_ticks = 19\<rparr>"

definition fresh_world :: world where
  "fresh_world = \<lparr>ctrl = new_AppController, document = (\<lambda>x. None), trace = []\<rparr>"

definition connected_world :: world where
  "connected_world =
     \<lparr>ctrl = new_AppController
         \<lparr>kiwriousConnected := True, itilesConnected := True,
          iTilesManager := Some (ITilesBLEManager 0), serialService := Some (SerialService 0),
          logCallbacks := [Callback 0, Callback 1]\<rparr>,
      document = (\<lambda>x. None),
      trace = []\<rparr>"

section \<open>The value-mapping helpers: lemmas\<close>

lemmas color_defs =
  color_blue_def color_cyan_def color_yellow_def color_orange_def color_red_def
  color_white_def color_magenta_def new_TileColor_def

lemma num_lt_plus_zero: "num_lt s t = num_lt (plus_zero s) (plus_zero t)"
  by (cases s; cases t) (simp_all add: plus_zero_def)

lemma plus_zero_not_NZero: "plus_zero v \<noteq> NZero"
  by (simp add: plus_zero_def)

lemma tempToColor_Fin:
  "tempToColor (Fin x) =
     (if x < 15 then color_blue else if x < 20 then color_cyan
      else if x < 25 then color_yellow else if x < 30 then color_orange else color_red)"
  by (simp add: tempToColor_def color_defs)

lemma tempToColor_special:
  "tempToColor NInf = color_blue \<and> tempToColor PInf = color_red \<and> tempToColor NaN = color_red
   \<and> tempToColor NZero = color_blue"
  by (simp add: tempToColor_def color_defs)

lemma tempToColor_plus_zero: "tempToColor (plus_zero v) = tempToColor v"
  by (simp add: plus_zero_def tempToColor_special tempToColor_Fin)

lemma temp_position:
  "position temp_palette (tempToColor (Fin x)) =
     (if x < 15 then 0 else if x < 20 then 1 else if x < 25 then 2 else if x < 30 then 3 else 4)"
  by (simp add: tempToColor_Fin temp_palette_def color_defs)

lemma temp_monotone_aux:
  assumes lt: "num_lt s t" and s0: "s \<noteq> NZero" and t0: "t \<noteq> NZero"
  shows "position temp_palette (tempToColor s) \<le> position temp_palette (tempToColor t)"
proof (cases s)
  case NaN
  with lt show ?thesis by simp
next
  case NInf
  then show ?thesis by (simp add: tempToColor_special temp_palette_def)
next
  case PInf
  with lt show ?thesis by (cases t) simp_all
next
  case s: (Fin x)
  show ?thesis
  proof (cases t)
    case (Fin y)
    with lt s have "x < y" by simp
    then show ?thesis unfolding Fin s temp_position by simp
  next
    case PInf
    then show ?thesis unfolding s temp_position
      by (simp add: tempToColor_special temp_palette_def color_defs)
  qed (use lt s t0 in simp_all)
qed (use s0 in simp)

lemma temp_monotone:
  assumes "num_lt s t"
  shows "position temp_palette (tempToColor s) \<le> position temp_palette (tempToColor t)"
proof -
  from assms have "num_lt (plus_zero s) (plus_zero t)" by (simp flip: num_lt_plus_zero)
  from temp_monotone_aux [OF this plus_zero_not_NZero plus_zero_not_NZero]
  show ?thesis by (simp add: tempToColor_plus_zero)
qed

lemma temp_member: "tempToColor t \<in> set temp_palette"
  by (simp add: tempToColor_def temp_palette_def color_defs)

lemma uvToColor_Fin:
  "uvToColor (Fin x) =
     (if x < 3 then color_white else if x < 6 then color_yellow
      else if x < 8 then color_orange else if x < 11 then color_red else color_magenta)"
  by (simp add: uvToColor_def color_defs)

lemma uvToColor_special:
  "uvToColor NInf = color_white \<and> uvToColor PInf = color_magenta \<and> uvToColor NaN = color_magenta
   \<and> uvToColor NZero = color_white"
  by (simp add: uvToColor_def color_defs)

lemma uvToColor_plus_zero: "uvToColor (plus_zero v) = uvToColor v"
  by (simp add: plus_zero_def uvToColor_special uvToColor_Fin)

lemma uv_position:
  "position uv_palette (uvToColor (Fin x)) =
     (if x < 3 then 0 else if x < 6 then 1 else if x < 8 then 2 else if x < 11 then 3 else 4)"
  by (simp add: uvToColor_Fin uv_palette_def color_defs)

lemma uv_monotone_aux:
  assumes lt: "num_lt s t" and s0: "s \<noteq> NZero" and t0: "t \<noteq> NZero"
  shows "position uv_palette (uvToColor s) \<le> position uv_palette (uvToColor t)"
proof (cases t)
  case NaN
  with lt show ?thesis by (cases s) simp_all
next
  case NInf
  with lt show ?thesis by (cases s) simp_all
next
  case PInf
  have "position uv_palette (uvToColor s) \<le> 4"
  proof (cases s)
    case (Fin x)
    show ?thesis unfolding Fin uv_position by simp
  qed (simp_all add: uvToColor_special uv_palette_def color_defs)
  then show ?thesis unfolding PInf
    by (simp add: uvToColor_special uv_palette_def color_defs)
next
  case t: (Fin y)
  show ?thesis
  proof (cases s)
    case (Fin x)
    with lt t have "x < y" by simp
    then show ?thesis unfolding Fin t uv_position by simp
  next
    case NInf
    then show ?thesis by (simp add: uvToColor_special uv_palette_def)
  qed (use lt t s0 in simp_all)
qed (use t0 in simp)

lemma uv_monotone:
  assumes "num_lt s t"
  shows "position uv_palette (uvToColor s) \<le> position uv_palette (uvToColor t)"
proof -
  from assms have "num_lt (plus_zero s) (plus_zero t)" by (simp flip: num_lt_plus_zero)
  from uv_monotone_aux [OF this plus_zero_not_NZero plus_zero_not_NZero]
  show ?thesis by (simp add: uvToColor_plus_zero)
qed

lemma uv_member: "uvToColor u \<in> set uv_palette"
  by (simp add: uvToColor_def uv_palette_def color_defs)

section \<open>Rounding: lemmas\<close>

subsection \<open>Powers of two\<close>

lemma p2_pos: "0 < (2::real) powi e"
  by simp

lemma p2_mono: "a \<le> c \<Longrightarrow> (2::real) powi a \<le> 2 powi c"
  by (simp add: power_int_increasing)

lemma p2_strict_mono: "a < c \<Longrightarrow> (2::real) powi a < 2 powi c"
  by (simp add: power_int_strict_increasing)

lemma p2_add: "(2::real) powi (a + c) = 2 powi a * 2 powi c"
  by (simp add: power_int_add)

lemma p2_diff: "(2::real) powi (a - c) = 2 powi a / 2 powi c"
  by (simp add: power_int_diff)

lemma p2_int: "0 \<le> e \<Longrightarrow> (2::real) powi e = of_int (2 ^ nat e)"
  by (simp add: power_int_nonneg_exp)

subsection \<open>The binade of a positive real\<close>

lemma floor_log2_ge1:
  assumes "1 \<le> x"
  shows "2 powi floor_log2 x \<le> x \<and> x < 2 powi (floor_log2 x + 1)"
proof -
  let ?n = "\<lfloor>x\<rfloor>"
  from assms have n: "0 < ?n" by linarith
  from bitlen_bounds [OF n] have b: "2 ^ nat (bitlen ?n - 1) \<le> ?n" "?n < 2 ^ nat (bitlen ?n)"
    by simp_all
  from n have bl: "1 \<le> bitlen ?n" by (simp add: bitlen_alt_def)
  have fl: "floor_log2 x = bitlen ?n - 1" using assms by (simp add: floor_log2_def)
  have "(2::real) powi (bitlen ?n - 1) = of_int (2 ^ nat (bitlen ?n - 1))"
    using bl by (simp add: power_int_nonneg_exp)
  also have "\<dots> \<le> of_int ?n" using b(1) by linarith
  also have "\<dots> \<le> x" by simp
  finally have lo: "2 powi floor_log2 x \<le> x" by (simp add: fl)
  have "?n + 1 \<le> 2 ^ nat (bitlen ?n)" using b(2) by simp
  then have le: "of_int (?n + 1) \<le> (of_int (2 ^ nat (bitlen ?n)) :: real)"
    by (rule of_int_le_iff [THEN iffD2])
  have "x < of_int (?n + 1)" by linarith
  also note le
  also have "of_int (2 ^ nat (bitlen ?n)) = (2::real) powi (bitlen ?n)"
    using bl by (simp add: power_int_nonneg_exp)
  finally have "x < 2 powi (floor_log2 x + 1)" by (simp add: fl)
  with lo show ?thesis by simp
qed

lemma floor_log2_bounds:
  assumes "0 < x"
  shows "2 powi floor_log2 x \<le> x \<and> x < 2 powi (floor_log2 x + 1)"
proof (cases "1 \<le> x")
  case True
  then show ?thesis by (rule floor_log2_ge1)
next
  case False
  define y where "y = 1 / x"
  from False assms have y1: "1 \<le> y" by (simp add: y_def)
  define m where "m = floor_log2 y"
  from floor_log2_ge1 [OF y1] have my: "2 powi m \<le> y" "y < 2 powi (m + 1)"
    by (simp_all add: m_def)
  have mdef: "m = bitlen \<lfloor>1 / x\<rfloor> - 1" using y1 by (simp add: m_def floor_log2_def y_def)
  have x: "x = 1 / y" using assms by (simp add: y_def)
  have ypos: "0 < y" using y1 by simp
  show ?thesis
  proof (cases "y = 2 powi m")
    case True
    then have fl: "floor_log2 x = - m"
      using False mdef by (simp add: floor_log2_def Let_def y_def)
    have "x = 2 powi (- m)" using True x by (simp add: power_int_minus_divide)
    then show ?thesis using fl p2_strict_mono [of "- m" "- m + 1"] by simp
  next
    case ne: False
    then have fl: "floor_log2 x = - m - 1"
      using False mdef by (simp add: floor_log2_def Let_def y_def)
    from ne my have lt: "2 powi m < y" by simp
    have "x < 2 powi (- m)"
    proof -
      from lt ypos have "1 / y < 1 / 2 powi m" by (simp add: frac_less2)
      then show ?thesis using x by (simp add: power_int_minus_divide)
    qed
    moreover have "2 powi (- m - 1) \<le> x"
    proof -
      from my(2) ypos have "1 / 2 powi (m + 1) \<le> 1 / y" by (simp add: frac_le)
      moreover have "(2::real) powi (- m - 1) = 1 / 2 powi (m + 1)"
        using power_int_minus_divide [of "2::real" "m + 1"] by simp
      ultimately show ?thesis using x by simp
    qed
    ultimately show ?thesis using fl by simp
  qed
qed

lemma floor_log2_unique:
  assumes "2 powi k \<le> x" and "x < 2 powi (k + 1)"
  shows "floor_log2 x = k"
proof -
  have "0 < x" using assms(1) p2_pos [of k] by linarith
  from floor_log2_bounds [OF this] have b: "2 powi floor_log2 x \<le> x" "x < 2 powi (floor_log2 x + 1)"
    by simp_all
  have "\<not> floor_log2 x < k"
  proof
    assume "floor_log2 x < k"
    then have "floor_log2 x + 1 \<le> k" by simp
    from p2_mono [OF this] b(2) assms(1) show False by linarith
  qed
  moreover have "\<not> k < floor_log2 x"
  proof
    assume "k < floor_log2 x"
    then have "k + 1 \<le> floor_log2 x" by simp
    from p2_mono [OF this] b(1) assms(2) show False by linarith
  qed
  ultimately show ?thesis by simp
qed

lemma floor_log2_mono:
  assumes "0 < x" and "x \<le> y"
  shows "floor_log2 x \<le> floor_log2 y"
proof (rule ccontr)
  assume "\<not> floor_log2 x \<le> floor_log2 y"
  then have "floor_log2 y + 1 \<le> floor_log2 x" by simp
  from p2_mono [OF this] floor_log2_bounds [OF assms(1)] floor_log2_bounds [of y] assms
  show False by linarith
qed

lemma floor_log2_double:
  assumes "0 < x"
  shows "floor_log2 (2 * x) = floor_log2 x + 1"
proof (rule floor_log2_unique)
  from floor_log2_bounds [OF assms]
  show "2 powi (floor_log2 x + 1) \<le> 2 * x" "2 * x < 2 powi (floor_log2 x + 1 + 1)"
    by (simp_all add: p2_add)
qed

subsection \<open>Rounding to an integer, ties to even\<close>

lemma roundeven_int [simp]: "roundeven (of_int n) = n"
  by (simp add: roundeven_def)

lemma roundeven_floor_or_next: "roundeven q = \<lfloor>q\<rfloor> \<or> roundeven q = \<lfloor>q\<rfloor> + 1"
  by (simp add: roundeven_def Let_def)

lemma roundeven_ge: 
  assumes "of_int n \<le> q" shows "n \<le> roundeven q"
proof -
  from assms have "n \<le> \<lfloor>q\<rfloor>" by linarith
  with roundeven_floor_or_next [of q] show ?thesis by linarith
qed

lemma roundeven_le:
  assumes "q \<le> of_int n" shows "roundeven q \<le> n"
proof (cases "q = of_int n")
  case True
  then show ?thesis by simp
next
  case False
  with assms have "q < of_int n" by simp
  then have "\<lfloor>q\<rfloor> + 1 \<le> n" by linarith
  with roundeven_floor_or_next [of q] show ?thesis by linarith
qed

lemma roundeven_mono:
  assumes "p \<le> q" shows "roundeven p \<le> roundeven q"
proof (cases "\<lfloor>p\<rfloor> = \<lfloor>q\<rfloor>")
  case True
  with assms show ?thesis by (auto simp: roundeven_def Let_def)
next
  case False
  with assms have "\<lfloor>p\<rfloor> + 1 \<le> \<lfloor>q\<rfloor>" by (smt (verit) floor_mono)
  with roundeven_floor_or_next [of p] roundeven_floor_or_next [of q] show ?thesis by linarith
qed

lemma roundeven_abs: "\<bar>of_int (roundeven q) - q\<bar> \<le> 1 / 2"
  by (simp add: roundeven_def Let_def)

lemma roundeven_minus: "roundeven (- q) = - roundeven q"
proof (cases "q = of_int \<lfloor>q\<rfloor>")
  case True
  then have "q = of_int \<lfloor>q\<rfloor>" .
  then obtain n :: int where "q = of_int n" ..
  then show ?thesis by (simp flip: of_int_minus)
next
  case False
  then have f: "\<lfloor>- q\<rfloor> = - \<lfloor>q\<rfloor> - 1" by linarith
  show ?thesis unfolding roundeven_def Let_def f using False
    by (auto simp: algebra_simps) 
qed


subsection \<open>Rounding to the grid: bounds, monotonicity, exactness\<close>

lemma ulp_exponent_minus [simp]: "ulp_exponent (- x) = ulp_exponent x"
  by (simp add: ulp_exponent_def)

lemma ulp_exponent_ge: "- 1074 \<le> ulp_exponent x"
  by (simp add: ulp_exponent_def)

lemma round_real_minus: "round_real (- x) = - round_real x"
  by (simp add: round_real_def roundeven_minus)

lemma round_real_0 [simp]: "round_real 0 = 0"
  by (simp add: round_real_def)

lemma scaled_int:
  assumes "e' \<le> e"
  shows "(2::real) powi e / 2 powi e' = of_int (2 ^ nat (e - e'))"
  using assms by (simp flip: p2_diff add: p2_int)

lemma round_real_upper:
  assumes "0 < x" and "x \<le> 2 powi j" and "- 1074 \<le> j"
  shows "round_real x \<le> 2 powi j"
proof -
  define e where "e = ulp_exponent x"
  have "floor_log2 x \<le> j"
  proof (rule ccontr)
    assume "\<not> floor_log2 x \<le> j"
    then have "j + 1 \<le> floor_log2 x" by simp
    from p2_mono [OF this] floor_log2_bounds [OF assms(1)] assms(2) p2_strict_mono [of j "j + 1"]
    show False by linarith
  qed
  with assms(3) have ej: "e \<le> j" using assms(1) by (simp add: e_def ulp_exponent_def)
  have "x / 2 powi e \<le> 2 powi j / 2 powi e"
    using assms(2) by (simp add: divide_right_mono)
  also have "\<dots> = of_int (2 ^ nat (j - e))" by (rule scaled_int [OF ej])
  finally have "roundeven (x / 2 powi e) \<le> 2 ^ nat (j - e)" by (rule roundeven_le)
  then have "of_int (roundeven (x / 2 powi e)) \<le> (of_int (2 ^ nat (j - e)) :: real)"
    by (rule of_int_le_iff [THEN iffD2])
  then have "of_int (roundeven (x / 2 powi e)) * (2::real) powi e
      \<le> of_int (2 ^ nat (j - e)) * 2 powi e"
    by (rule mult_right_mono) simp
  also have "of_int (2 ^ nat (j - e)) * 2 powi e = (2::real) powi j"
    using scaled_int [OF ej, symmetric] by simp
  finally show ?thesis using assms(1) by (simp add: round_real_def e_def)
qed

lemma round_real_lower:
  assumes "2 powi j \<le> x" and "- 1074 \<le> j"
  shows "2 powi j \<le> round_real x"
proof -
  have xpos: "0 < x" using assms(1) p2_pos [of j] by linarith
  define e where "e = ulp_exponent x"
  define k where "k = floor_log2 x"
  have jk: "j \<le> k"
  proof (rule ccontr)
    assume "\<not> j \<le> k"
    then have "k + 1 \<le> j" by simp
    from p2_mono [OF this] floor_log2_bounds [OF xpos] assms(1) show False
      by (simp add: k_def)
  qed
  with assms(2) have ek: "e \<le> k" using xpos by (simp add: e_def ulp_exponent_def k_def)
  have kx: "2 powi k \<le> x" using floor_log2_bounds [OF xpos] by (simp add: k_def)
  have "of_int (2 ^ nat (k - e)) = (2::real) powi k / 2 powi e"
    by (rule scaled_int [OF ek, symmetric])
  also have "\<dots> \<le> x / 2 powi e" using kx by (simp add: divide_right_mono)
  finally have "2 ^ nat (k - e) \<le> roundeven (x / 2 powi e)" by (rule roundeven_ge)
  then have "(of_int (2 ^ nat (k - e)) :: real) \<le> of_int (roundeven (x / 2 powi e))"
    by (rule of_int_le_iff [THEN iffD2])
  then have "of_int (2 ^ nat (k - e)) * (2::real) powi e
      \<le> of_int (roundeven (x / 2 powi e)) * 2 powi e"
    by (rule mult_right_mono) simp
  then have le: "of_int (2 ^ nat (k - e)) * (2::real) powi e \<le> round_real x"
    using xpos by (simp add: round_real_def e_def)
  have "(2::real) powi k = of_int (2 ^ nat (k - e)) * 2 powi e"
    using scaled_int [OF ek, symmetric] by simp
  also note le
  finally have "2 powi k \<le> round_real x" .
  with p2_mono [OF jk] show ?thesis by linarith
qed

lemma round_real_nonneg:
  assumes "0 \<le> x" shows "0 \<le> round_real x"
proof (cases "x = 0")
  case False
  with assms have "0 \<le> x / 2 powi ulp_exponent x" by simp
  then have "0 \<le> roundeven (x / 2 powi ulp_exponent x)"
    using roundeven_ge [of 0] by simp
  then show ?thesis using False by (simp add: round_real_def)
qed simp

lemma round_real_nonpos:
  assumes "x \<le> 0" shows "round_real x \<le> 0"
  using round_real_nonneg [of "- x"] assms by (simp add: round_real_minus)

lemma round_real_mono_pos:
  assumes "0 < x" and "x \<le> y"
  shows "round_real x \<le> round_real y"
proof -
  have ypos: "0 < y" using assms by simp
  have kk: "floor_log2 x \<le> floor_log2 y" by (rule floor_log2_mono [OF assms])
  show ?thesis
  proof (cases "ulp_exponent x = ulp_exponent y")
    case True
    have "x / 2 powi ulp_exponent y \<le> y / 2 powi ulp_exponent y"
      using assms(2) by (simp add: divide_right_mono)
    then have "roundeven (x / 2 powi ulp_exponent y) \<le> roundeven (y / 2 powi ulp_exponent y)"
      by (rule roundeven_mono)
    then have "(of_int (roundeven (x / 2 powi ulp_exponent y)) :: real)
        \<le> of_int (roundeven (y / 2 powi ulp_exponent y))"
      by (rule of_int_le_iff [THEN iffD2])
    then have "of_int (roundeven (x / 2 powi ulp_exponent y)) * (2::real) powi ulp_exponent y
        \<le> of_int (roundeven (y / 2 powi ulp_exponent y)) * 2 powi ulp_exponent y"
      by (rule mult_right_mono) simp
    then show ?thesis using assms(1) ypos True by (simp add: round_real_def)
  next
    case False
    with kk assms(1) ypos have lt: "floor_log2 x < floor_log2 y" and j: "- 1074 \<le> floor_log2 y"
      by (auto simp: ulp_exponent_def max_def split: if_splits)
    then have "floor_log2 x + 1 \<le> floor_log2 y" by simp
    from p2_mono [OF this] floor_log2_bounds [OF assms(1)]
    have "x \<le> 2 powi floor_log2 y" by linarith
    from round_real_upper [OF assms(1) this j]
      round_real_lower [OF _ j, of y] floor_log2_bounds [OF ypos]
    show ?thesis by linarith
  qed
qed

lemma round_real_mono:
  assumes "x \<le> y" shows "round_real x \<le> round_real y"
proof -
  consider "0 < x" | "x \<le> 0" "0 \<le> y" | "y < 0" by linarith
  then show ?thesis
  proof cases
    case 1
    then show ?thesis using assms by (rule round_real_mono_pos)
  next
    case 2
    then show ?thesis using round_real_nonpos [of x] round_real_nonneg [of y] by linarith
  next
    case 3
    then have "0 < - y" "- y \<le> - x" using assms by simp_all
    from round_real_mono_pos [OF this] show ?thesis by (simp add: round_real_minus)
  qed
qed

text \<open>A value on the grid of its own binade is left as it is.\<close>

lemma round_real_grid:
  assumes "- 1074 \<le> e" and "\<bar>n\<bar> \<le> 2 ^ 53"
  shows "round_real (of_int n * 2 powi e) = of_int n * 2 powi e"
proof (cases "n = 0")
  case False
  define x :: real where "x = of_int n * 2 powi e"
  have xne: "x \<noteq> 0" using False by (simp add: x_def)
  have ax: "\<bar>x\<bar> = of_int \<bar>n\<bar> * 2 powi e" by (simp add: x_def abs_mult)
  have "of_int \<bar>n\<bar> \<le> (2::real) ^ 53" using assms(2) by (metis of_int_le_iff of_int_numeral of_int_power)
  then have "\<bar>x\<bar> \<le> 2 ^ 53 * 2 powi e" unfolding ax by (rule mult_right_mono) simp
  also have "\<dots> = 2 powi (53 + e)" by (simp add: p2_add)
  finally have up: "\<bar>x\<bar> \<le> 2 powi (53 + e)" .
  have k: "floor_log2 \<bar>x\<bar> \<le> 53 + e"
  proof (rule ccontr)
    assume "\<not> floor_log2 \<bar>x\<bar> \<le> 53 + e"
    then have "53 + e + 1 \<le> floor_log2 \<bar>x\<bar>" by simp
    from p2_mono [OF this] floor_log2_bounds [of "\<bar>x\<bar>"] xne up p2_strict_mono [of "53 + e" "53 + e + 1"]
    show False by simp
  qed
  define e' where "e' = ulp_exponent x"
  show ?thesis
  proof (cases "e' \<le> e")
    case True
    have "x / 2 powi e' = of_int n * (2 powi e / 2 powi e')" by (simp add: x_def)
    also have "\<dots> = of_int (n * 2 ^ nat (e - e'))" by (simp add: scaled_int [OF True])
    finally have q: "x / 2 powi e' = of_int (n * 2 ^ nat (e - e'))" .
    have "roundeven (x / 2 powi e') = n * 2 ^ nat (e - e')"
      unfolding q by (rule roundeven_int)
    then have "round_real x = of_int (n * 2 ^ nat (e - e')) * 2 powi e'"
      using xne unfolding round_real_def e'_def [symmetric] by (simp only: if_False)
    also have "\<dots> = of_int n * (of_int (2 ^ nat (e - e')) * 2 powi e')" by simp
    also have "of_int (2 ^ nat (e - e')) * 2 powi e' = (2::real) powi e"
      using scaled_int [OF True, symmetric] by simp
    finally show ?thesis by (simp add: x_def)
  next
    case False
    with k assms(1) have e'e: "e' = e + 1" and kk: "floor_log2 \<bar>x\<bar> = 53 + e"
      by (auto simp: e'_def ulp_exponent_def max_def split: if_splits)
    from floor_log2_bounds [of "\<bar>x\<bar>"] xne kk up have "\<bar>x\<bar> = 2 powi (53 + e)" by simp
    then have "of_int \<bar>n\<bar> * 2 powi e = (2::real) ^ 53 * 2 powi e" by (simp add: ax p2_add)
    then have "(of_int \<bar>n\<bar> :: real) = 2 ^ 53" by simp
    then have an: "\<bar>n\<bar> = 2 ^ 53" by (metis of_int_eq_iff of_int_numeral of_int_power)
    then have "n = 2 * 2 ^ 52 \<or> n = 2 * (- (2 ^ 52))" by (simp add: abs_if split: if_splits)
    then obtain m where n: "n = 2 * m" by blast
    have "x / 2 powi e' = of_int n * (2 powi e / 2 powi (e + 1))" by (simp add: x_def e'e)
    also have "2 powi e / (2::real) powi (e + 1) = 1 / 2" by (simp add: p2_add)
    finally have q: "x / 2 powi e' = of_int m" by (simp add: n)
    have "roundeven (x / 2 powi e') = m"
      unfolding q by (rule roundeven_int)
    then have "round_real x = of_int m * 2 powi (e + 1)"
      using xne unfolding round_real_def e'_def [symmetric] by (simp add: e'e)
    then show ?thesis by (simp add: x_def n p2_add)
  qed
qed simp

lemma round_real_of_int:
  assumes "\<bar>n\<bar> \<le> 2 ^ 53"
  shows "round_real (of_int n) = of_int n"
  using round_real_grid [of 0 n] assms by simp

subsection \<open>Rounding to a number\<close>

lemma overflow_threshold_powi: "overflow_threshold = 2 powi 1024"
  by (simp add: overflow_threshold_def)

lemma overflow_threshold_quarter: "overflow_threshold = 4 * 2 powi 1022"
  unfolding overflow_threshold_powi using p2_add [of 1022 2] by simp

lemma overflow_threshold_pos: "0 < overflow_threshold"
  by (simp add: overflow_threshold_def)

lemma overflow_threshold_not_le [simp]: "\<not> overflow_threshold \<le> 0"
  by (simp add: not_le overflow_threshold_pos)

lemma round_double_not_NaN [simp]: "round_double x \<noteq> NaN"
  by (simp add: round_double_def Let_def)

lemma round_double_0 [simp]: "round_double 0 = Fin 0"
  by (simp add: round_double_def)

lemma round_double_negative:
  assumes "x < 0" shows "negative (round_double x)"
  using round_real_nonpos [of x] assms overflow_threshold_pos
  by (auto simp: round_double_def Let_def)

lemma round_double_not_negative:
  assumes "0 < x" shows "\<not> negative (round_double x)"
  using round_real_nonneg [of x] assms overflow_threshold_pos
  by (auto simp: round_double_def Let_def)

lemma round_double_overflow:
  assumes "overflow_threshold \<le> x" shows "round_double x = PInf"
proof -
  have "(2::real) powi 1024 \<le> round_real x"
    by (rule round_real_lower) (use assms in \<open>simp_all add: overflow_threshold_def\<close>)
  then show ?thesis by (simp add: round_double_def overflow_threshold_powi)
qed

lemma round_double_at_least:
  assumes "round_real c = c" and "0 < c" and "c \<le> x"
  shows "at_least c (round_double x)"
proof -
  from round_real_mono [OF assms(3)] assms(1) have "c \<le> round_real x" by simp
  with assms(2) overflow_threshold_pos show ?thesis
    by (simp add: round_double_def Let_def at_least_def)
qed

lemma is_double_round_real:
  assumes "is_double x" shows "round_real x = x"
  using assms by (auto simp: is_double_def round_double_def Let_def split: if_splits)

lemma is_double_grid:
  assumes "- 1074 \<le> e" and "\<bar>n\<bar> \<le> 2 ^ 53" and "\<bar>of_int n * 2 powi e\<bar> < overflow_threshold"
  shows "is_double (of_int n * 2 powi e)"
  using assms(3)
  by (auto simp: is_double_def round_double_def Let_def round_real_grid [OF assms(1,2)]
      abs_less_iff)

lemma is_double_of_int:
  assumes "\<bar>n\<bar> \<le> 2 ^ 53" shows "is_double (of_int n)"
proof -
  have "\<bar>of_int n :: real\<bar> \<le> 2 ^ 53" using assms by (metis of_int_abs of_int_le_iff of_int_numeral of_int_power)
  then have "\<bar>of_int n * 2 powi 0\<bar> < overflow_threshold"
    by (simp add: overflow_threshold_def)
  from is_double_grid [OF _ assms this] show ?thesis by simp
qed

lemma is_double_half: "is_double (1 / 2)"
  using is_double_grid [of "- 1" 1] by (simp add: overflow_threshold_def)

subsection \<open>The grid of doubles\<close>

lemma on_grid_0 [simp]: "on_grid 0"
  unfolding on_grid_def by (rule exI [of _ 0]) simp

lemma on_grid_diff:
  assumes "on_grid x" and "on_grid y" shows "on_grid (x - y)"
proof -
  from assms obtain n m :: int where "x = of_int n * 2 powi (- 1074)" "y = of_int m * 2 powi (- 1074)"
    unfolding on_grid_def by blast
  then have "x - y = of_int (n - m) * 2 powi (- 1074)" by (simp add: algebra_simps)
  then show ?thesis unfolding on_grid_def by blast
qed

lemma on_grid_double:
  assumes "on_grid x" shows "on_grid (2 * x)"
proof -
  from assms obtain n :: int where "x = of_int n * 2 powi (- 1074)" unfolding on_grid_def by blast
  then have "2 * x = of_int (2 * n) * 2 powi (- 1074)" by simp
  then show ?thesis unfolding on_grid_def by blast
qed

lemma round_real_on_grid:
  assumes "x \<noteq> 0" shows "on_grid (round_real x)"
proof -
  define e where "e = ulp_exponent x"
  define n where "n = roundeven (x / 2 powi e)"
  have e: "- 1074 \<le> e" by (simp add: e_def ulp_exponent_ge)
  have "round_real x = of_int n * 2 powi e" using assms by (simp add: round_real_def e_def n_def)
  also have "(2::real) powi e = of_int (2 ^ nat (e + 1074)) * 2 powi (- 1074)"
    using scaled_int [of "- 1074" e] e by (simp add: field_simps)
  finally have "round_real x = of_int (n * 2 ^ nat (e + 1074)) * 2 powi (- 1074)" by simp
  then show ?thesis unfolding on_grid_def by blast
qed

lemma is_double_on_grid:
  assumes "is_double x" shows "on_grid x"
proof (cases "x = 0")
  case False
  from round_real_on_grid [OF False] is_double_round_real [OF assms] show ?thesis by simp
qed simp

lemma on_grid_pos:
  assumes "on_grid x" and "0 < x" shows "2 powi (- 1074) \<le> x"
proof -
  from assms(1) obtain n :: int where x: "x = of_int n * 2 powi (- 1074)"
    unfolding on_grid_def by blast
  with assms(2) have "0 < (of_int n :: real)" by (simp add: zero_less_mult_iff)
  then have "1 \<le> (of_int n :: real)" by simp
  then have "1 * 2 powi (- 1074) \<le> of_int n * (2::real) powi (- 1074)"
    by (rule mult_right_mono) simp
  with x show ?thesis by simp
qed

lemma round_real_grid_pos:
  assumes "on_grid x" and "0 < x" shows "0 < round_real x"
proof -
  from round_real_lower [OF on_grid_pos [OF assms]] p2_pos [of "- 1074"] show ?thesis by linarith
qed

lemma round_real_small_grid:
  assumes "on_grid x" and "\<bar>x\<bar> \<le> 2 powi (- 1021)"
  shows "round_real x = x"
proof -
  from assms(1) obtain n :: int where x: "x = of_int n * 2 powi (- 1074)"
    unfolding on_grid_def by blast
  have "\<bar>of_int n :: real\<bar> * 2 powi (- 1074) \<le> 2 ^ 53 * 2 powi (- 1074)"
    using assms(2) unfolding x by (simp add: abs_mult flip: p2_add)
  then have "\<bar>of_int n :: real\<bar> \<le> 2 ^ 53" by simp
  then have "\<bar>n\<bar> \<le> 2 ^ 53" by (metis of_int_abs of_int_le_iff of_int_numeral of_int_power)
  from round_real_grid [OF _ this, of "- 1074"] show ?thesis by (simp add: x)
qed

lemma round_real_double:
  assumes "on_grid x" and "0 < x"
  shows "round_real (2 * x) = 2 * round_real x"
proof (cases "- 1074 \<le> floor_log2 x - 52")
  case True
  then have "ulp_exponent (2 * x) = ulp_exponent x + 1"
    using assms(2) by (simp add: ulp_exponent_def floor_log2_double)
  then show ?thesis using assms(2) by (simp add: round_real_def p2_add)
next
  case False
  then have "floor_log2 x + 1 \<le> - 1022" by simp
  from p2_mono [OF this] floor_log2_bounds [OF assms(2)] have lt: "x < 2 powi (- 1022)" by linarith
  then have "\<bar>x\<bar> \<le> 2 powi (- 1021)" using assms(2) p2_mono [of "- 1022" "- 1021"] by simp
  moreover from lt have "\<bar>2 * x\<bar> \<le> 2 powi (- 1021)"
    using assms(2) p2_add [of 1 "- 1022"] by simp
  ultimately show ?thesis
    using round_real_small_grid [OF assms(1)] round_real_small_grid [OF on_grid_double [OF assms(1)]]
    by simp
qed

subsection \<open>The clamp to 0..100\<close>

lemma clamp_negative:
  assumes "negative t"
  shows "Math_max (Fin 0) (Math_min (Fin 100) t) = Fin 0"
  using assms by (cases t) (simp_all add: Math_max_def Math_min_def)

lemma clamp_at_least:
  assumes "at_least 100 t"
  shows "Math_max (Fin 0) (Math_min (Fin 100) t) = Fin 100"
  using assms by (cases t) (auto simp: Math_max_def Math_min_def at_least_def)

lemma clamp_in_range:
  assumes "t \<noteq> NaN"
  shows "in_0_100 (Math_max (Fin 0) (Math_min (Fin 100) t))"
  using assms by (cases t) (auto simp: Math_max_def Math_min_def in_0_100_def)

subsection \<open>Quotient and scaling\<close>

lemma div_negative:
  assumes "negative a" and "0 < d"
  shows "negative (num_div a (Fin d))"
proof (cases a)
  case (Fin x)
  with assms have "x / d < 0" by (simp add: divide_neg_pos)
  from round_double_negative [OF this] Fin assms show ?thesis by (simp add: num_div_def)
qed (use assms in \<open>simp_all add: num_div_def signed_inf_def signed_zero_def\<close>)

lemma mul100_negative:
  assumes "negative q"
  shows "negative (num_mul q (Fin 100))"
proof (cases q)
  case (Fin x)
  with assms have "x * 100 < 0" by simp
  from round_double_negative [OF this] Fin assms show ?thesis by (simp add: num_mul_def)
qed (use assms in \<open>simp_all add: num_mul_def signed_inf_def signed_zero_def\<close>)

lemma div_not_NaN:
  assumes "a \<noteq> NaN" and "0 < d"
  shows "num_div a (Fin d) \<noteq> NaN"
  using assms by (cases a) (simp_all add: num_div_def signed_inf_def signed_zero_def)

lemma mul100_not_NaN:
  assumes "q \<noteq> NaN"
  shows "num_mul q (Fin 100) \<noteq> NaN"
  using assms by (cases q) (simp_all add: num_mul_def signed_inf_def signed_zero_def)

lemma round_real_1: "round_real 1 = 1"
  using round_real_of_int [of 1] by simp

lemma round_real_100: "round_real 100 = 100"
  using round_real_of_int [of 100] by simp

lemma div_at_least:
  assumes "at_least d a" and "0 < d"
  shows "at_least 1 (num_div a (Fin d))"
proof (cases a)
  case (Fin x)
  with assms have "1 \<le> x / d" by (simp add: at_least_def)
  from round_double_at_least [OF round_real_1 _ this] Fin assms show ?thesis
    by (simp add: num_div_def at_least_def)
qed (use assms in \<open>simp_all add: num_div_def signed_inf_def at_least_def\<close>)

lemma mul100_at_least:
  assumes "at_least 1 q"
  shows "at_least 100 (num_mul q (Fin 100))"
proof (cases q)
  case (Fin x)
  with assms have "100 \<le> x * 100" by (simp add: at_least_def)
  from round_double_at_least [OF round_real_100 _ this] Fin assms show ?thesis
    by (simp add: num_mul_def at_least_def)
qed (use assms in \<open>simp_all add: num_mul_def signed_inf_def at_least_def\<close>)

subsection \<open>Differences\<close>

lemma num_sub_finite:
  assumes "is_finite x" and "is_finite y" and "real_of x \<noteq> real_of y"
  shows "num_sub x y = round_double (real_of x - real_of y)"
  using assms by (cases x; cases y) (auto simp: num_sub_def num_add_def is_finite_def)

lemma num_sub_same:
  assumes "is_finite m" shows "num_sub m m = Fin 0"
  using assms by (cases m) (auto simp: num_sub_def num_add_def is_finite_def)

lemma num_sub_equal_zero:
  assumes "is_finite x" and "is_finite y" and "real_of x = real_of y"
  shows "is_zero (num_sub x y)"
  using assms by (cases x; cases y) (auto simp: num_sub_def num_add_def is_finite_def)

lemma num_sub_NInf:
  assumes "is_finite y" shows "num_sub NInf y = NInf"
  using assms by (cases y) (auto simp: num_sub_def num_add_def is_finite_def)

lemma num_sub_PInf:
  assumes "is_finite y" shows "num_sub PInf y = PInf"
  using assms by (cases y) (auto simp: num_sub_def num_add_def is_finite_def)

lemma num_sub_not_NaN:
  assumes "is_finite y" and "x \<noteq> NaN" shows "num_sub x y \<noteq> NaN"
  using assms by (cases x; cases y) (auto simp: num_sub_def num_add_def is_finite_def)

lemma num_lt_finite:
  assumes "is_finite x" and "is_finite y"
  shows "num_lt x y = (real_of x < real_of y)"
  using assms by (cases x; cases y) (auto simp: is_finite_def)

lemma finite_on_grid:
  assumes "is_finite x" and "representable x" shows "on_grid (real_of x)"
  using assms by (cases x) (auto simp: is_finite_def representable_def is_double_on_grid)

text \<open>The span hi - lo of two finite bounds lo < hi that does not overflow.\<close>

lemma span_positive:
  assumes "is_finite lo" "is_finite hi" "representable lo" "representable hi"
    and "num_lt lo hi" and "num_sub hi lo \<noteq> PInf"
  shows "num_sub hi lo = Fin (round_real (real_of hi - real_of lo)) \<and> 0 < round_real (real_of hi - real_of lo)"
proof -
  from assms(1,2,5) have lt: "real_of lo < real_of hi" by (simp add: num_lt_finite)
  then have ne: "real_of hi \<noteq> real_of lo" by simp
  have g: "on_grid (real_of hi - real_of lo)"
    by (rule on_grid_diff) (use assms in \<open>simp_all add: finite_on_grid\<close>)
  from lt have "0 < real_of hi - real_of lo" by simp
  from round_real_grid_pos [OF g this] have pos: "0 < round_real (real_of hi - real_of lo)" .
  from assms(6) have "round_double (real_of hi - real_of lo) \<noteq> PInf"
    by (simp add: num_sub_finite [OF assms(2,1) ne])
  with pos overflow_threshold_pos have "round_double (real_of hi - real_of lo) = Fin (round_real (real_of hi - real_of lo))"
    by (auto simp: round_double_def Let_def split: if_splits)
  with pos show ?thesis by (simp add: num_sub_finite [OF assms(2,1) ne])
qed

lemma below_negative:
  assumes "is_finite lo" and "num_lt v lo"
  shows "negative (num_sub v lo)"
proof (cases "is_finite v")
  case True
  with assms have "real_of v - real_of lo < 0" by (simp add: num_lt_finite)
  from round_double_negative [OF this] show ?thesis
    using num_sub_finite [OF True assms(1)] \<open>real_of v - real_of lo < 0\<close> by simp
next
  case False
  with assms have "v = NInf" by (cases v; cases lo) (auto simp: is_finite_def)
  then show ?thesis by (simp add: num_sub_NInf [OF assms(1)])
qed

lemma above_at_least:
  assumes "is_finite lo" and "is_finite hi" and "real_of lo < real_of hi" and "num_lt hi v"
  shows "at_least (round_real (real_of hi - real_of lo)) (num_sub v lo)"
proof (cases "is_finite v")
  case True
  with assms have lt: "real_of hi < real_of v" by (simp add: num_lt_finite)
  with assms(3) have ne: "real_of v \<noteq> real_of lo" by simp
  from lt have "real_of hi - real_of lo \<le> real_of v - real_of lo" by simp
  from round_real_mono [OF this] have m: "round_real (real_of hi - real_of lo) \<le> round_real (real_of v - real_of lo)" .
  have "0 \<le> round_real (real_of hi - real_of lo)" using assms(3) by (simp add: round_real_nonneg)
  with m overflow_threshold_pos lt assms(3) show ?thesis
    unfolding num_sub_finite [OF True assms(1) ne]
    by (auto simp: round_double_def Let_def at_least_def)
next
  case False
  with assms have "v = PInf" by (cases v; cases hi) (auto simp: is_finite_def)
  then show ?thesis by (simp add: num_sub_PInf [OF assms(1)] at_least_def)
qed


subsection \<open>normalizeValue between finite bounds\<close>

lemma normalizeValue_below:
  assumes "is_finite lo" "is_finite hi" "representable lo" "representable hi"
    and "num_lt lo hi" and "num_sub hi lo \<noteq> PInf" and "num_lt v lo"
  shows "normalizeValue v lo hi = Fin 0"
proof -
  from span_positive [OF assms(1-6)] obtain d where d: "num_sub hi lo = Fin d" "0 < d" by blast
  have "negative (num_sub v lo)" by (rule below_negative [OF assms(1,7)])
  then have "negative (num_div (num_sub v lo) (Fin d))" using d(2) by (rule div_negative)
  then have "negative (num_mul (num_div (num_sub v lo) (Fin d)) (Fin 100))"
    by (rule mul100_negative)
  then show ?thesis unfolding normalizeValue_def d(1) by (rule clamp_negative)
qed

lemma normalizeValue_above:
  assumes "is_finite lo" "is_finite hi" "representable lo" "representable hi"
    and "num_lt lo hi" and "num_sub hi lo \<noteq> PInf" and "num_lt hi v"
  shows "normalizeValue v lo hi = Fin 100"
proof -
  define d where "d = round_real (real_of hi - real_of lo)"
  from span_positive [OF assms(1-6)] have d: "num_sub hi lo = Fin d" "0 < d"
    by (simp_all add: d_def)
  from assms(1,2,5) have "real_of lo < real_of hi" by (simp add: num_lt_finite)
  from above_at_least [OF assms(1,2) this assms(7)] have "at_least d (num_sub v lo)"
    by (simp add: d_def)
  then have "at_least 1 (num_div (num_sub v lo) (Fin d))" using d(2) by (rule div_at_least)
  then have "at_least 100 (num_mul (num_div (num_sub v lo) (Fin d)) (Fin 100))"
    by (rule mul100_at_least)
  then show ?thesis unfolding normalizeValue_def d(1) by (rule clamp_at_least)
qed

lemma normalizeValue_range:
  assumes "is_finite lo" "is_finite hi" "representable lo" "representable hi"
    and "num_lt lo hi" and "num_sub hi lo \<noteq> PInf" and "v \<noteq> NaN"
  shows "in_0_100 (normalizeValue v lo hi)"
proof -
  from span_positive [OF assms(1-6)] obtain d where d: "num_sub hi lo = Fin d" "0 < d" by blast
  have "num_sub v lo \<noteq> NaN" by (rule num_sub_not_NaN [OF assms(1,7)])
  then have "num_div (num_sub v lo) (Fin d) \<noteq> NaN" using d(2) by (rule div_not_NaN)
  then have "num_mul (num_div (num_sub v lo) (Fin d)) (Fin 100) \<noteq> NaN"
    by (rule mul100_not_NaN)
  then show ?thesis unfolding normalizeValue_def d(1) by (rule clamp_in_range)
qed

text \<open>Between the bounds the clamp changes nothing but the sign of a zero.\<close>

lemma round_double_bounded:
  assumes "0 \<le> x" and "round_real x \<le> c" and "c < overflow_threshold"
  shows "round_double x = Fin (round_real x) \<and> 0 \<le> round_real x"
proof -
  from assms(1) have "0 \<le> round_real x" by (rule round_real_nonneg)
  with assms overflow_threshold_pos show ?thesis
    by (simp add: round_double_def Let_def)
qed

lemma overflow_threshold_gt_100: "100 < overflow_threshold"
proof -
  have "(2::real) powi 7 \<le> 2 powi 1024" by (rule p2_mono) simp
  then show ?thesis by (simp add: overflow_threshold_powi)
qed

lemma clamp_inactive:
  assumes "0 \<le> y" and "y \<le> 100"
  shows "Math_max (Fin 0) (Math_min (Fin 100) (Fin y)) = Fin y"
  using assms by (auto simp: Math_max_def Math_min_def)

lemma clamp_zero:
  assumes "is_zero t"
  shows "Math_max (Fin 0) (Math_min (Fin 100) t) = plus_zero t"
  using assms by (cases t) (auto simp: Math_max_def Math_min_def plus_zero_def)

lemma rescale_zero:
  assumes "is_zero a" and "0 < d"
  shows "is_zero (num_mul (num_div a (Fin d)) (Fin 100))"
  using assms by (cases a) (auto simp: num_div_def num_mul_def signed_zero_def)

lemma rescale_positive:
  assumes "0 \<le> a" and "a \<le> d" and "0 < d"
  shows "\<exists>y. num_mul (num_div (Fin a) (Fin d)) (Fin 100) = Fin y \<and> 0 \<le> y \<and> y \<le> 100"
proof (cases "a = 0")
  case True
  then show ?thesis using assms by (simp add: num_div_def num_mul_def signed_zero_def)
next
  case False
  define q where "q = round_real (a / d)"
  from assms False have "0 \<le> a / d" "a / d \<le> 1" by simp_all
  from round_real_mono [OF this(2)] have q1: "q \<le> 1" by (simp add: q_def round_real_1)
  have "(1::real) < overflow_threshold" using overflow_threshold_gt_100 by simp
  from round_double_bounded [OF \<open>0 \<le> a / d\<close> q1 [unfolded q_def] this]
  have q: "round_double (a / d) = Fin q" "0 \<le> q" by (simp_all add: q_def)
  from False assms have dv: "num_div (Fin a) (Fin d) = Fin q"
    by (simp add: num_div_def q)
  show ?thesis
  proof (cases "q = 0")
    case True
    then show ?thesis unfolding dv by (simp add: num_mul_def signed_zero_def)
  next
    case False
    from q(2) q1 have "0 \<le> q * 100" "q * 100 \<le> 100" by simp_all
    from round_real_mono [OF this(2)] have "round_real (q * 100) \<le> 100"
      by (simp add: round_real_100)
    from round_double_bounded [OF \<open>0 \<le> q * 100\<close> this overflow_threshold_gt_100]
      \<open>round_real (q * 100) \<le> 100\<close> False
    show ?thesis unfolding dv by (simp add: num_mul_def)
  qed
qed

lemma round_double_Fin_bounded:
  assumes "round_double x = Fin y" shows "y < overflow_threshold"
  using assms
  by (auto simp: round_double_def Let_def overflow_threshold_pos split: if_splits)

lemma normalizeValue_between:
  assumes "is_finite lo" "is_finite hi" "representable lo" "representable hi"
    and "num_lt lo hi" and "num_sub hi lo \<noteq> PInf"
    and "v \<noteq> NaN" and "\<not> num_lt v lo" and "\<not> num_lt hi v"
  shows "normalizeValue v lo hi = plus_zero (rescale v lo hi)"
proof -
  define d where "d = round_real (real_of hi - real_of lo)"
  from span_positive [OF assms(1-6)] have d: "num_sub hi lo = Fin d" "0 < d"
    by (simp_all add: d_def)
  from assms(1,2,7,8,9) have fin: "is_finite v"
    by (cases v; cases lo; cases hi) (simp_all add: is_finite_def)
  with assms(1,2,8,9) have le: "real_of lo \<le> real_of v" "real_of v \<le> real_of hi"
    by (simp_all add: num_lt_finite not_less)
  show ?thesis
  proof (cases "real_of v = real_of lo")
    case True
    from num_sub_equal_zero [OF fin assms(1) True] have "is_zero (num_sub v lo)" .
    from rescale_zero [OF this d(2)] have "is_zero (rescale v lo hi)"
      by (simp add: rescale_def d(1))
    from clamp_zero [OF this] show ?thesis by (simp add: normalizeValue_def rescale_def)
  next
    case False
    define a where "a = round_real (real_of v - real_of lo)"
    from le False have pos: "0 \<le> real_of v - real_of lo" by simp
    from le(2) have "real_of v - real_of lo \<le> real_of hi - real_of lo" by simp
    from round_real_mono [OF this] have ad: "a \<le> d" by (simp add: a_def d_def)
    from assms(1,2,5) have "real_of hi \<noteq> real_of lo" by (simp add: num_lt_finite)
    from d(1) [unfolded num_sub_finite [OF assms(2,1) this]]
    have "d < overflow_threshold" by (rule round_double_Fin_bounded)
    from round_double_bounded [OF pos ad [unfolded a_def] this]
    have a: "num_sub v lo = Fin a" "0 \<le> a"
      by (simp_all add: num_sub_finite [OF fin assms(1) False] a_def)
    from rescale_positive [OF a(2) ad d(2)] obtain y
      where y: "rescale v lo hi = Fin y" "0 \<le> y" "y \<le> 100"
      by (auto simp: rescale_def a(1) d(1))
    from clamp_inactive [OF y(2,3)] y(1) show ?thesis
      by (simp add: normalizeValue_def rescale_def plus_zero_def)
  qed
qed

lemma round_double_half: "round_double (1 / 2) = Fin (1 / 2)"
  using is_double_half by (simp add: is_double_def)

lemma round_double_50: "round_double 50 = Fin 50"
  using is_double_of_int [of 50] by (simp add: is_double_def)

lemma normalizeValue_midpoint:
  assumes "is_finite lo" "is_finite hi" "representable lo" "representable hi"
    and "num_lt lo hi" and "num_sub hi lo \<noteq> PInf"
    and "is_finite v" "representable v" and "real_of v = (real_of lo + real_of hi) / 2"
  shows "normalizeValue v lo hi = Fin 50"
proof -
  define s where "s = real_of v - real_of lo"
  from assms(1,2,5) have lt: "real_of lo < real_of hi" by (simp add: num_lt_finite)
  with assms(9) have spos: "0 < s" and two: "real_of hi - real_of lo = 2 * s"
    by (simp_all add: s_def field_simps)
  have g: "on_grid s" unfolding s_def
    by (rule on_grid_diff) (use assms in \<open>simp_all add: finite_on_grid\<close>)
  define d where "d = round_real (real_of hi - real_of lo)"
  from span_positive [OF assms(1-6)] have d: "num_sub hi lo = Fin d" "0 < d"
    by (simp_all add: d_def)
  have dd: "d = 2 * round_real s" unfolding d_def two by (rule round_real_double [OF g spos])
  from assms(6) have "round_double (real_of hi - real_of lo) \<noteq> PInf"
    using num_sub_finite [OF assms(2,1)] lt by simp
  then have "d < overflow_threshold"
    by (auto simp: round_double_def Let_def d_def split: if_splits)
  with dd d(2) have h: "0 < round_real s" "round_real s < overflow_threshold" by simp_all
  from spos have "real_of v \<noteq> real_of lo" by (simp add: s_def)
  from num_sub_finite [OF assms(7,1) this] h overflow_threshold_pos
  have a: "num_sub v lo = Fin (round_real s)"
    by (auto simp: round_double_def Let_def s_def)
  from h(1) d(2) dd have "num_div (num_sub v lo) (Fin d) = round_double (1 / 2)"
    unfolding a by (simp add: num_div_def)
  then have "num_mul (num_div (num_sub v lo) (Fin d)) (Fin 100) = Fin 50"
    by (simp add: round_double_half num_mul_def round_double_50)
  then show ?thesis unfolding normalizeValue_def d(1)
    by (simp add: Math_max_def Math_min_def)
qed

subsection \<open>Equal bounds\<close>

lemma normalizeValue_same: "normalizeValue m m m = NaN"
proof (cases "is_finite m")
  case True
  then show ?thesis
    by (simp add: normalizeValue_def num_sub_same num_div_def num_mul_def Math_max_def Math_min_def)
next
  case False
  then show ?thesis
    by (cases m)
      (simp_all add: is_finite_def normalizeValue_def num_sub_def num_add_def num_div_def
        num_mul_def Math_max_def Math_min_def)
qed

lemma normalizeValue_equal_bounds_below:
  assumes "is_finite m" "representable m" "representable v" "num_lt v m"
  shows "normalizeValue v m m = Fin 0"
proof -
  have neg: "negative (num_sub v m)" by (rule below_negative [OF assms(1,4)])
  have nz: "\<not> is_zero (num_sub v m)"
  proof (cases "is_finite v")
    case True
    with assms have lt: "real_of v < real_of m" by (simp add: num_lt_finite)
    have "on_grid (real_of m - real_of v)"
      by (rule on_grid_diff) (use assms True in \<open>simp_all add: finite_on_grid\<close>)
    from round_real_grid_pos [OF this] lt have "0 < round_real (real_of m - real_of v)" by simp
    then have "round_real (real_of v - real_of m) < 0"
      using round_real_minus [of "real_of m - real_of v"] by simp
    with overflow_threshold_pos have "\<not> is_zero (round_double (real_of v - real_of m))"
      by (auto simp: round_double_def Let_def)
    then show ?thesis using num_sub_finite [OF True assms(1)] lt by simp
  next
    case False
    with assms have "v = NInf" by (cases v; cases m) (auto simp: is_finite_def)
    then show ?thesis by (simp add: num_sub_NInf [OF assms(1)])
  qed
  from neg nz have "num_div (num_sub v m) (Fin 0) = NInf"
    by (cases "num_sub v m") (simp_all add: num_div_def signed_inf_def)
  then show ?thesis
    by (simp add: normalizeValue_def num_sub_same [OF assms(1)] num_mul_def signed_inf_def
        Math_max_def Math_min_def)
qed

lemma normalizeValue_equal_bounds_above:
  assumes "is_finite m" "representable m" "representable v" "num_lt m v"
  shows "normalizeValue v m m = Fin 100"
proof -
  have "num_div (num_sub v m) (Fin 0) = PInf"
  proof (cases "is_finite v")
    case True
    with assms have lt: "real_of m < real_of v" by (simp add: num_lt_finite)
    have "on_grid (real_of v - real_of m)"
      by (rule on_grid_diff) (use assms True in \<open>simp_all add: finite_on_grid\<close>)
    from round_real_grid_pos [OF this] lt have "0 < round_real (real_of v - real_of m)" by simp
    with overflow_threshold_pos
    have "\<not> is_zero (round_double (real_of v - real_of m))" "\<not> negative (round_double (real_of v - real_of m))"
      by (auto simp: round_double_def Let_def)
    then show ?thesis using num_sub_finite [OF True assms(1)] lt
      by (cases "round_double (real_of v - real_of m)") (simp_all add: num_div_def signed_inf_def)
  next
    case False
    with assms have "v = PInf" by (cases v; cases m) (auto simp: is_finite_def)
    then show ?thesis by (simp add: num_sub_PInf [OF assms(1)] num_div_def signed_inf_def)
  qed
  then show ?thesis
    by (simp add: normalizeValue_def num_sub_same [OF assms(1)] num_mul_def signed_inf_def
        Math_max_def Math_min_def)
qed

text \<open>Rounding a positive value of a known binade in the normal range.\<close>

lemma round_double_binade:
  assumes "2 powi k \<le> x" and "x < 2 powi (k + 1)" and "- 1022 \<le> k" and "k \<le> 1022"
  shows "round_double x = Fin (of_int (roundeven (x / 2 powi (k - 52))) * 2 powi (k - 52))"
proof -
  have xpos: "0 < x" using assms(1) p2_pos [of k] by linarith
  have fl: "floor_log2 x = k" by (rule floor_log2_unique [OF assms(1,2)])
  then have e: "ulp_exponent x = k - 52" using xpos assms(3) by (simp add: ulp_exponent_def)
  have rr: "round_real x = of_int (roundeven (x / 2 powi (k - 52))) * 2 powi (k - 52)"
    using xpos by (simp add: round_real_def e)
  have lo: "2 powi k \<le> round_real x" by (rule round_real_lower) (use assms in simp_all)
  have "round_real x \<le> 2 powi (k + 1)"
    by (rule round_real_upper) (use assms xpos in simp_all)
  also have "(2::real) powi (k + 1) < 2 powi 1024" by (rule p2_strict_mono) (use assms in simp)
  finally have hi: "round_real x < overflow_threshold" by (simp add: overflow_threshold_powi)
  from lo p2_pos [of k] have "0 < round_real x" by linarith
  with hi show ?thesis unfolding rr [symmetric] by (simp add: round_double_def Let_def)
qed

subsection \<open>Channels\<close>

lemma valid_channelE:
  assumes "valid_channel x"
  obtains n :: int where "x = Fin (of_int n)" and "0 \<le> n" and "n \<le> 255"
proof (cases x)
  case (Fin y)
  with assms have y: "0 \<le> y" "y \<le> 255" "of_int \<lfloor>y\<rfloor> = y"
    unfolding valid_channel_def by simp_all
  from y(3) Fin have "x = Fin (of_int \<lfloor>y\<rfloor>)" by (simp only:)
  moreover from y(1,2) have "0 \<le> \<lfloor>y\<rfloor>" "\<lfloor>y\<rfloor> \<le> 255" by linarith+
  ultimately show ?thesis using that by blast
qed (use assms in \<open>simp_all add: valid_channel_def\<close>)

lemma round_double_of_int:
  assumes "\<bar>n\<bar> \<le> 2 ^ 53" shows "round_double (of_int n) = Fin (of_int n)"
  using is_double_of_int [OF assms] by (simp add: is_double_def)

lemma int_difference:
  assumes "\<bar>m - n\<bar> \<le> 2 ^ 53"
  shows "num_sub (Fin (of_int m)) (Fin (of_int n)) = Fin (of_int (m - n))"
proof (cases "m = n")
  case True
  then show ?thesis by (simp add: num_sub_same is_finite_def)
next
  case False
  then have "num_sub (Fin (of_int m)) (Fin (of_int n)) = round_double (of_int m - of_int n)"
    by (simp add: num_sub_finite is_finite_def)
  also have "\<dots> = round_double (of_int (m - n))" by simp
  also have "\<dots> = Fin (of_int (m - n))" by (rule round_double_of_int [OF assms])
  finally show ?thesis .
qed

lemma Math_round_of_int: "Math_round (Fin (of_int n)) = Fin (of_int n)"
proof -
  have "\<lfloor>(of_int n :: real) + 1 / 2\<rfloor> = n" by linarith
  then show ?thesis by simp
qed

lemma channel_at_0:
  assumes "valid_channel x" and "valid_channel y"
  shows "Math_round (num_add x (num_mul (Fin 0) (num_sub y x))) = x"
proof -
  from assms(1) obtain n :: int where x: "x = Fin (of_int n)" and n: "0 \<le> n" "n \<le> 255"
    by (rule valid_channelE)
  from assms(2) obtain m :: int where y: "y = Fin (of_int m)" and m: "0 \<le> m" "m \<le> 255"
    by (rule valid_channelE)
  from n m have d: "num_sub (Fin (of_int m)) (Fin (of_int n)) = Fin (of_int (m - n))"
    by (intro int_difference) simp
  have z: "is_zero (num_mul (Fin 0) (Fin (of_int (m - n))))"
    by (simp add: num_mul_def signed_zero_def)
  have "num_add (Fin (of_int n)) (num_mul (Fin 0) (Fin (of_int (m - n)))) = Fin (of_int n)"
  proof (cases "num_mul (Fin 0) (Fin (of_int (m - n)))")
    case NZero
    from n have "round_double (of_int n) = Fin (of_int n)"
      by (intro round_double_of_int) simp
    then show ?thesis unfolding NZero by (simp add: num_add_def)
  next
    case (Fin u)
    with z have u: "u = 0" by simp
    from n have "round_double (of_int n) = Fin (of_int n)"
      by (intro round_double_of_int) simp
    then show ?thesis unfolding Fin u by (simp add: num_add_def)
  qed (use z in simp_all)
  then show ?thesis unfolding x y d by (simp only: Math_round_of_int)
qed

lemma channel_at_1:
  assumes "valid_channel x" and "valid_channel y"
  shows "Math_round (num_add x (num_mul (Fin 1) (num_sub y x))) = y"
proof -
  from assms(1) obtain n :: int where x: "x = Fin (of_int n)" and n: "0 \<le> n" "n \<le> 255"
    by (rule valid_channelE)
  from assms(2) obtain m :: int where y: "y = Fin (of_int m)" and m: "0 \<le> m" "m \<le> 255"
    by (rule valid_channelE)
  from n m have d: "num_sub (Fin (of_int m)) (Fin (of_int n)) = Fin (of_int (m - n))"
    by (intro int_difference) simp
  from n m have "round_double (of_int (m - n)) = Fin (of_int (m - n))"
    by (intro round_double_of_int) simp
  then have p: "num_mul (Fin 1) (Fin (of_int (m - n))) = Fin (of_int (m - n))"
    by (simp add: num_mul_def signed_zero_def)
  from m have "round_double (of_int m) = Fin (of_int m)"
    by (intro round_double_of_int) simp
  then have "num_add (Fin (of_int n)) (Fin (of_int (m - n))) = Fin (of_int m)"
    by (simp add: num_add_def)
  then show ?thesis unfolding x y d p by (simp only: Math_round_of_int)
qed

text \<open>A finite factor: the product is rounded once, then the sum is rounded once.\<close>

lemma lerp_two_roundings:
  assumes "valid_channel x" and "valid_channel y" and "t \<noteq> 0" and "real_of x \<noteq> real_of y"
  shows "double_lerp x y (Fin t) = num_add x (round_double (t * (real_of y - real_of x)))"
proof -
  from assms(1) obtain n :: int where x: "x = Fin (of_int n)" and n: "0 \<le> n" "n \<le> 255"
    by (rule valid_channelE)
  from assms(2) obtain m :: int where y: "y = Fin (of_int m)" and m: "0 \<le> m" "m \<le> 255"
    by (rule valid_channelE)
  from n m have d: "num_sub (Fin (of_int m)) (Fin (of_int n)) = Fin (of_int (m - n))"
    by (intro int_difference) simp
  from assms(4) have "m \<noteq> n" by (auto simp: x y)
  with assms(3) show ?thesis unfolding double_lerp_def x y d by (simp add: num_mul_def)
qed

lemma Math_round_nearest:
  "Math_round (Fin z) = (if round z = 0 \<and> z < 0 then NZero else Fin (of_int (round z)))"
  by (simp add: round_def)

lemma product_5: "round_double (three_tenths * 5) = Fin (3 / 2)"
  using round_double_binade [of 0 "three_tenths * 5"]
  by (simp add: roundeven_def Let_def three_tenths_def)

lemma product_255: "round_double (three_tenths * 255) = Fin (153 / 2)"
  using round_double_binade [of 6 "three_tenths * 255"]
  by (simp add: roundeven_def Let_def three_tenths_def)

lemma round_double_halves:
  assumes "\<bar>n\<bar> \<le> 2 ^ 53" shows "round_double (of_int n / 2) = Fin (of_int n / 2)"
proof -
  have "\<bar>of_int n :: real\<bar> \<le> 2 ^ 53"
    using assms by (metis of_int_abs of_int_le_iff of_int_numeral of_int_power)
  then have "\<bar>of_int n * 2 powi (- 1)\<bar> < overflow_threshold"
    by (simp add: overflow_threshold_def power_int_minus)
  from is_double_grid [OF _ assms this] show ?thesis by (simp add: is_double_def power_int_minus field_simps)
qed

section \<open>The value-mapping helpers: properties\<close>

text \<open>
  Claim C6. For every numeric temperature \<open>t\<close>, \<^verbatim>\<open>tempToColor(t)\<close> is exactly one of five
  fixed colours, chosen by ascending threshold comparisons with the boundaries 15, 20, 25
  and 30: the first threshold that \<open>t\<close> is below decides, and a \<open>t\<close> below none of
  them (also \<^verbatim>\<open>NaN\<close>) gets the final bucket. The five colours are distinct, and as \<open>t\<close>
  grows the bucket moves through blue, cyan, yellow, orange, red and never back.
\<close>

theorem tempToColor_buckets:
  "(\<forall>x. tempToColor (Fin x) =
          (if x < 15 then color_blue else if x < 20 then color_cyan
           else if x < 25 then color_yellow else if x < 30 then color_orange
           else color_red))
   \<and> tempToColor NInf = color_blue \<and> tempToColor PInf = color_red
   \<and> tempToColor NaN = color_red \<and> tempToColor NZero = color_blue
   \<and> tempToColor t \<in> set temp_palette
   \<and> distinct temp_palette \<and> length temp_palette = 5
   \<and> (\<forall>s u. num_lt s u \<longrightarrow>
          position temp_palette (tempToColor s) \<le> position temp_palette (tempToColor u))"
proof -
  have "distinct temp_palette" "length temp_palette = 5"
    by (simp_all add: temp_palette_def color_defs)
  then show ?thesis
    using tempToColor_Fin tempToColor_special temp_member temp_monotone by blast
qed

theorem tempToColor_buckets_witness:
  "tempToColor (Fin 10) = color_blue \<and> tempToColor (Fin 15) = color_cyan
   \<and> tempToColor (Fin 20) = color_yellow \<and> tempToColor (Fin 25) = color_orange
   \<and> tempToColor (Fin 30) = color_red
   \<and> position temp_palette (tempToColor (Fin 10)) \<le> position temp_palette (tempToColor (Fin 22))"
proof -
  note t = tempToColor_buckets [of NaN]
  have lt: "num_lt (Fin 10) (Fin 22)" by simp
  from t have "\<forall>s u. num_lt s u \<longrightarrow>
      position temp_palette (tempToColor s) \<le> position temp_palette (tempToColor u)"
    by blast
  with lt have "position temp_palette (tempToColor (Fin 10))
      \<le> position temp_palette (tempToColor (Fin 22))"
    by blast
  moreover from t have "\<forall>x. tempToColor (Fin x) =
          (if x < 15 then color_blue else if x < 20 then color_cyan
           else if x < 25 then color_yellow else if x < 30 then color_orange
           else color_red)"
    by blast
  then have "tempToColor (Fin 10) = color_blue" "tempToColor (Fin 15) = color_cyan"
    "tempToColor (Fin 20) = color_yellow" "tempToColor (Fin 25) = color_orange"
    "tempToColor (Fin 30) = color_red"
    by simp_all
  ultimately show ?thesis by blast
qed

text \<open>
  Claim C7. For every numeric UV value \<open>u\<close>, \<^verbatim>\<open>uvToColor(u)\<close> is one of five fixed colours,
  chosen by ascending threshold comparisons with the boundaries 3, 6, 8 and 11; the
  buckets are, in order, the colours for low, moderate, high, very high and extreme, the
  first threshold that \<open>u\<close> is below decides, and a \<open>u\<close> below none of them gets the
  extreme colour.
\<close>

theorem uvToColor_buckets:
  "(\<forall>x. uvToColor (Fin x) =
          (if x < 3 then color_white else if x < 6 then color_yellow
           else if x < 8 then color_orange else if x < 11 then color_red
           else color_magenta))
   \<and> uvToColor NInf = color_white \<and> uvToColor PInf = color_magenta
   \<and> uvToColor NaN = color_magenta \<and> uvToColor NZero = color_white
   \<and> uvToColor u \<in> set uv_palette
   \<and> distinct uv_palette \<and> length uv_palette = 5
   \<and> (\<forall>s v. num_lt s v \<longrightarrow>
          position uv_palette (uvToColor s) \<le> position uv_palette (uvToColor v))"
proof -
  have "distinct uv_palette" "length uv_palette = 5"
    by (simp_all add: uv_palette_def color_defs)
  then show ?thesis
    using uvToColor_Fin uvToColor_special uv_member uv_monotone by blast
qed

theorem uvToColor_buckets_witness:
  "uvToColor (Fin 2) = color_white \<and> uvToColor (Fin 3) = color_yellow
   \<and> uvToColor (Fin 6) = color_orange \<and> uvToColor (Fin 8) = color_red
   \<and> uvToColor (Fin 11) = color_magenta
   \<and> position uv_palette (uvToColor (Fin 4)) \<le> position uv_palette (uvToColor (Fin 9))"
proof -
  note t = uvToColor_buckets [of NaN]
  have lt: "num_lt (Fin 4) (Fin 9)" by simp
  from t have mono: "\<forall>s v. num_lt s v \<longrightarrow>
      position uv_palette (uvToColor s) \<le> position uv_palette (uvToColor v)"
    by blast
  from t have "\<forall>x. uvToColor (Fin x) =
          (if x < 3 then color_white else if x < 6 then color_yellow
           else if x < 8 then color_orange else if x < 11 then color_red
           else color_magenta)"
    by blast
  then have "uvToColor (Fin 2) = color_white" "uvToColor (Fin 3) = color_yellow"
    "uvToColor (Fin 6) = color_orange" "uvToColor (Fin 8) = color_red"
    "uvToColor (Fin 11) = color_magenta"
    by simp_all
  with mono lt show ?thesis by blast
qed

text \<open>
  Claim C8, as stated, for all numbers \<open>v\<close>, \<open>min\<close>, \<open>max\<close> with \<open>min < max\<close>: the result
  is 0 for \<open>v\<close> below \<open>min\<close> and 100 for \<open>v\<close> above \<open>max\<close>. It fails when a bound is
  infinite: with \<open>min = -Infinity\<close> and \<open>max = 0\<close> the value 1 lies above \<open>max\<close>, both
  differences are \<open>Infinity\<close>, their quotient is \<^verbatim>\<open>NaN\<close>, and the clamp returns \<^verbatim>\<open>NaN\<close>.
  It also fails for finite bounds whose difference overflows: with \<open>min = -2 ^ 1023\<close> and
  \<open>max = 2 ^ 1023\<close> the double \<open>3 * 2 ^ 1022\<close> lies above \<open>max\<close>, and again both
  differences are \<open>Infinity\<close>.
\<close>

theorem normalizeValue_infinite_bound_counterexample:
  "num_lt NInf (Fin 0) \<and> num_lt (Fin 0) (Fin 1)
   \<and> normalizeValue (Fin 1) NInf (Fin 0) = NaN
   \<and> normalizeValue (Fin 1) NInf (Fin 0) \<noteq> Fin 100
   \<and> is_double (- (overflow_threshold / 2)) \<and> is_double (overflow_threshold / 2)
   \<and> is_double (3 * overflow_threshold / 4)
   \<and> num_lt (Fin (- (overflow_threshold / 2))) (Fin (overflow_threshold / 2))
   \<and> num_lt (Fin (overflow_threshold / 2)) (Fin (3 * overflow_threshold / 4))
   \<and> normalizeValue (Fin (3 * overflow_threshold / 4))
        (Fin (- (overflow_threshold / 2))) (Fin (overflow_threshold / 2)) = NaN"
proof -
  have inf: "normalizeValue (Fin 1) NInf (Fin 0) = NaN"
    by (simp add: normalizeValue_def num_sub_def num_add_def num_div_def num_mul_def
        Math_max_def Math_min_def)
  define p where "p = (2::real) powi 1022"
  have pos: "0 < p" unfolding p_def by (rule p2_pos)
  have T: "overflow_threshold = 4 * p" unfolding p_def by (rule overflow_threshold_quarter)
  have "is_double (of_int 2 * 2 powi 1022)"
    by (rule is_double_grid) (use pos in \<open>simp_all add: T p_def\<close>)
  then have d1: "is_double (overflow_threshold / 2)" by (simp add: T p_def)
  have "is_double (of_int (- 2) * 2 powi 1022)"
    by (rule is_double_grid) (use pos in \<open>simp_all add: T p_def\<close>)
  then have d2: "is_double (- (overflow_threshold / 2))" by (simp add: T p_def)
  have "is_double (of_int 3 * 2 powi 1022)"
    by (rule is_double_grid) (use pos in \<open>simp_all add: T p_def\<close>)
  then have d3: "is_double (3 * overflow_threshold / 4)" by (simp add: T p_def)
  have "round_double (3 * overflow_threshold / 4 + overflow_threshold / 2) = PInf"
    by (rule round_double_overflow) (use pos in \<open>simp add: T\<close>)
  then have a: "num_sub (Fin (3 * overflow_threshold / 4)) (Fin (- (overflow_threshold / 2))) = PInf"
    using pos by (simp add: num_sub_def num_add_def T)
  have "round_double (overflow_threshold / 2 + overflow_threshold / 2) = PInf"
    by (rule round_double_overflow) simp
  then have b: "num_sub (Fin (overflow_threshold / 2)) (Fin (- (overflow_threshold / 2))) = PInf"
    using pos by (simp add: num_sub_def num_add_def T)
  have ovf: "normalizeValue (Fin (3 * overflow_threshold / 4))
        (Fin (- (overflow_threshold / 2))) (Fin (overflow_threshold / 2)) = NaN"
    unfolding normalizeValue_def a b
    by (simp add: num_div_def num_mul_def Math_max_def Math_min_def)
  from pos have "num_lt (Fin (- (overflow_threshold / 2))) (Fin (overflow_threshold / 2))"
    "num_lt (Fin (overflow_threshold / 2)) (Fin (3 * overflow_threshold / 4))"
    by (simp_all add: T)
  with inf ovf d1 d2 d3 show ?thesis by simp
qed

text \<open>
  Claim C8, amended. For all finite numbers \<open>min < max\<close> whose difference \<open>max - min\<close>
  does not overflow to \<^verbatim>\<open>Infinity\<close>, \<^verbatim>\<open>normalizeValue(v, min, max)\<close> is 0 for every \<open>v\<close>
  below \<open>min\<close> and 100 for every \<open>v\<close> above \<open>max\<close> (an infinite \<open>v\<close> included), it lies
  in 0..100 for every \<open>v\<close> that is not \<^verbatim>\<open>NaN\<close>, and it is exactly 50 when \<open>v\<close> is the
  midpoint of \<open>min\<close> and \<open>max\<close>. For \<open>v\<close> from \<open>min\<close> to \<open>max\<close> the clamp changes
  nothing but the sign of a zero: the result is \<open>(v - min) / (max - min) * 100\<close> as double
  arithmetic computes it, the differences, the quotient and the product each rounded to
  a double.
\<close>

theorem normalizeValue_finite_bounds:
  assumes "is_finite lo" and "is_finite hi" and "representable lo" and "representable hi"
    and "num_lt lo hi" and "num_sub hi lo \<noteq> PInf"
  shows "(\<forall>v. num_lt v lo \<longrightarrow> normalizeValue v lo hi = Fin 0)
       \<and> (\<forall>v. num_lt hi v \<longrightarrow> normalizeValue v lo hi = Fin 100)
       \<and> (\<forall>v. v \<noteq> NaN \<longrightarrow> in_0_100 (normalizeValue v lo hi))
       \<and> (\<forall>v. is_finite v \<and> representable v \<and> real_of v = (real_of lo + real_of hi) / 2 \<longrightarrow>
             normalizeValue v lo hi = Fin 50)
       \<and> (\<forall>v. v \<noteq> NaN \<and> \<not> num_lt v lo \<and> \<not> num_lt hi v \<longrightarrow>
             normalizeValue v lo hi = plus_zero (rescale v lo hi))"
  using normalizeValue_below [OF assms] normalizeValue_above [OF assms]
    normalizeValue_range [OF assms] normalizeValue_midpoint [OF assms]
    normalizeValue_between [OF assms]
  by blast

theorem normalizeValue_finite_bounds_witness:
  "normalizeValue (Fin (- 3)) (Fin 0) (Fin 10) = Fin 0
   \<and> normalizeValue NInf (Fin 0) (Fin 10) = Fin 0
   \<and> normalizeValue (Fin 12) (Fin 0) (Fin 10) = Fin 100
   \<and> normalizeValue PInf (Fin 0) (Fin 10) = Fin 100
   \<and> in_0_100 (normalizeValue (Fin 3) (Fin 0) (Fin 10))
   \<and> normalizeValue (Fin 5) (Fin 0) (Fin 10) = Fin 50
   \<and> normalizeValue (Fin 3) (Fin 0) (Fin 10) = plus_zero (rescale (Fin 3) (Fin 0) (Fin 10))"
proof -
  have f: "is_finite (Fin 0)" "is_finite (Fin 10)" "is_finite (Fin 5)"
    by (simp_all add: is_finite_def)
  have d: "representable (Fin 0)" "representable (Fin 10)" "representable (Fin 5)"
    using is_double_of_int [of 0] is_double_of_int [of 10] is_double_of_int [of 5]
    by (simp_all add: representable_def)
  have lt: "num_lt (Fin 0) (Fin 10)" by simp
  have "num_sub (Fin 10) (Fin 0) = Fin 10" using int_difference [of 10 0] by simp
  then have fin: "num_sub (Fin 10) (Fin 0) \<noteq> PInf" by simp
  note t = normalizeValue_finite_bounds [OF f(1,2) d(1,2) lt fin]
  from t have below: "\<forall>v. num_lt v (Fin 0) \<longrightarrow> normalizeValue v (Fin 0) (Fin 10) = Fin 0"
    by blast
  from t have above: "\<forall>v. num_lt (Fin 10) v \<longrightarrow> normalizeValue v (Fin 0) (Fin 10) = Fin 100"
    by blast
  from t have range: "\<forall>v. v \<noteq> NaN \<longrightarrow> in_0_100 (normalizeValue v (Fin 0) (Fin 10))"
    by blast
  from t have mid: "\<forall>v. is_finite v \<and> representable v
      \<and> real_of v = (real_of (Fin 0) + real_of (Fin 10)) / 2 \<longrightarrow>
        normalizeValue v (Fin 0) (Fin 10) = Fin 50"
    by blast
  from t have between: "\<forall>v. v \<noteq> NaN \<and> \<not> num_lt v (Fin 0) \<and> \<not> num_lt (Fin 10) v \<longrightarrow>
      normalizeValue v (Fin 0) (Fin 10) = plus_zero (rescale v (Fin 0) (Fin 10))"
    by blast
  from below have "normalizeValue (Fin (- 3)) (Fin 0) (Fin 10) = Fin 0"
    "normalizeValue NInf (Fin 0) (Fin 10) = Fin 0"
    by simp_all
  moreover from above have "normalizeValue (Fin 12) (Fin 0) (Fin 10) = Fin 100"
    "normalizeValue PInf (Fin 0) (Fin 10) = Fin 100"
    by simp_all
  moreover from range have "in_0_100 (normalizeValue (Fin 3) (Fin 0) (Fin 10))"
    by simp
  moreover from mid f(3) d(3) have "normalizeValue (Fin 5) (Fin 0) (Fin 10) = Fin 50"
    by simp
  moreover from between
  have "normalizeValue (Fin 3) (Fin 0) (Fin 10) = plus_zero (rescale (Fin 3) (Fin 0) (Fin 10))"
    by simp
  ultimately show ?thesis by blast
qed

text \<open>
  Claim C9, as stated: for every factor each output channel is the linear interpolation
  of the two input channels, rounded to the nearest integer. It fails on the code, which
  rounds the product \<open>factor * (c2 - c1)\<close> to a double before it rounds to an integer.
  With the factor \<^verbatim>\<open>0.3\<close> and colours \<open>(0, 0, 0)\<close> and \<open>(5, 255, 0)\<close> the exact
  interpolations lie just below \<open>1.5\<close> and \<open>76.5\<close>, so the nearest integers are 1 and
  76; the products round to the doubles \<open>1.5\<close> and \<open>76.5\<close>, and the code returns 2 and
  77.
\<close>

theorem interpolateColor_rounds_twice_counterexample:
  "valid_color color_black \<and> valid_color color_5_255_0 \<and> is_double three_tenths
   \<and> interpolateColor color_black color_5_255_0 (Fin three_tenths)
       = \<lparr>r = Fin 2, g = Fin 77, b = Fin 0\<rparr>
   \<and> round (0 + three_tenths * (5 - 0)) = 1
   \<and> round (0 + three_tenths * (255 - 0)) = 76"
proof -
  have v: "valid_color color_black" "valid_color color_5_255_0"
    by (simp_all add: valid_color_def valid_channel_def color_black_def color_5_255_0_def)
  have dbl: "is_double three_tenths"
    using is_double_grid [of "- 54" 5404319552844595]
    by (simp add: overflow_threshold_def three_tenths_def)
  have d5: "num_sub (Fin 5) (Fin 0) = Fin 5" using int_difference [of 5 0] by simp
  have d255: "num_sub (Fin 255) (Fin 0) = Fin 255" using int_difference [of 255 0] by simp
  have d0: "num_sub (Fin 0) (Fin 0) = Fin 0" by (simp add: num_sub_same is_finite_def)
  have t: "three_tenths \<noteq> 0" by (simp add: three_tenths_def)
  have h3: "round_double (3 / 2) = Fin (3 / 2)" using round_double_halves [of 3] by simp
  have h153: "round_double (153 / 2) = Fin (153 / 2)" using round_double_halves [of 153] by simp
  have "Math_round (num_add (Fin 0) (num_mul (Fin three_tenths) (Fin 5))) = Fin 2"
    using t by (simp add: num_mul_def product_5 num_add_def h3)
  moreover have "Math_round (num_add (Fin 0) (num_mul (Fin three_tenths) (Fin 255))) = Fin 77"
    using t by (simp add: num_mul_def product_255 num_add_def h153)
  moreover have "Math_round (num_add (Fin 0) (num_mul (Fin three_tenths) (Fin 0))) = Fin 0"
    using t by (simp add: num_mul_def num_add_def signed_zero_def three_tenths_def)
  ultimately have "interpolateColor color_black color_5_255_0 (Fin three_tenths)
      = \<lparr>r = Fin 2, g = Fin 77, b = Fin 0\<rparr>"
    by (simp add: interpolateColor_def Let_def new_TileColor_def color_black_def
        color_5_255_0_def d5 d255 d0)
  moreover have "round (0 + three_tenths * (5 - 0)) = 1"
    "round (0 + three_tenths * (255 - 0)) = 76"
    by (simp_all add: round_def three_tenths_def)
  ultimately show ?thesis using v dbl by blast
qed

text \<open>
  Claim C9, amended. For all colours \<open>c1\<close>, \<open>c2\<close> whose channels are integers from 0 to
  255, \<^verbatim>\<open>interpolateColor(c1, c2, 0)\<close> is \<open>c1\<close> and \<^verbatim>\<open>interpolateColor(c1, c2, 1)\<close> is
  \<open>c2\<close>, channel by channel. For every factor each channel of the result is
  \<^verbatim>\<open>Math.round\<close> of the interpolation \<open>c1 + factor * (c2 - c1)\<close> as double arithmetic
  computes it: for a finite factor other than zero and two different channels the
  product is rounded to a double, then the sum is rounded to a double, and
  \<^verbatim>\<open>Math.round\<close> takes the integer nearest to that double, the upper one of two that are
  equally near; a value that is \<^verbatim>\<open>NaN\<close> or infinite stays as it is.
\<close>

theorem interpolateColor_endpoints_and_rounding:
  assumes "valid_color c1" and "valid_color c2"
  shows "interpolateColor c1 c2 (Fin 0) = c1
       \<and> interpolateColor c1 c2 (Fin 1) = c2
       \<and> (\<forall>factor. interpolateColor c1 c2 factor =
             \<lparr>r = Math_round (double_lerp (r c1) (r c2) factor),
              g = Math_round (double_lerp (g c1) (g c2) factor),
              b = Math_round (double_lerp (b c1) (b c2) factor)\<rparr>)
       \<and> (\<forall>channel \<in> {r, g, b}. \<forall>t. t \<noteq> 0 \<longrightarrow> real_of (channel c1) \<noteq> real_of (channel c2) \<longrightarrow>
             double_lerp (channel c1) (channel c2) (Fin t) =
               num_add (channel c1)
                 (round_double (t * (real_of (channel c2) - real_of (channel c1)))))
       \<and> (\<forall>z. Math_round (Fin z) =
             (if round z = 0 \<and> z < 0 then NZero else Fin (of_int (round z))))
       \<and> Math_round NaN = NaN \<and> Math_round PInf = PInf \<and> Math_round NInf = NInf"
proof -
  from assms have "interpolateColor c1 c2 (Fin 0) = c1" "interpolateColor c1 c2 (Fin 1) = c2"
    by (simp_all add: interpolateColor_def Let_def new_TileColor_def valid_color_def
        channel_at_0 channel_at_1)
  moreover have "\<forall>factor. interpolateColor c1 c2 factor =
             \<lparr>r = Math_round (double_lerp (r c1) (r c2) factor),
              g = Math_round (double_lerp (g c1) (g c2) factor),
              b = Math_round (double_lerp (b c1) (b c2) factor)\<rparr>"
    by (simp add: interpolateColor_def Let_def new_TileColor_def double_lerp_def)
  moreover from assms have "\<forall>channel \<in> {r, g, b}. \<forall>t. t \<noteq> 0 \<longrightarrow>
      real_of (channel c1) \<noteq> real_of (channel c2) \<longrightarrow>
        double_lerp (channel c1) (channel c2) (Fin t) =
          num_add (channel c1) (round_double (t * (real_of (channel c2) - real_of (channel c1))))"
    by (simp add: valid_color_def lerp_two_roundings)
  moreover have "\<forall>z. Math_round (Fin z) =
      (if round z = 0 \<and> z < 0 then NZero else Fin (of_int (round z)))"
    by (simp add: round_def)
  ultimately show ?thesis by simp
qed

theorem interpolateColor_endpoints_and_rounding_witness:
  "valid_color color_blue \<and> valid_color color_red
   \<and> interpolateColor color_blue color_red (Fin 0) = color_blue
   \<and> interpolateColor color_blue color_red (Fin 1) = color_red
   \<and> r (interpolateColor color_blue color_red (Fin (1 / 2))) = Fin 77
   \<and> b (interpolateColor color_blue color_red NaN) = NaN"
proof -
  have v: "valid_color color_blue" "valid_color color_red"
    by (simp_all add: valid_color_def valid_channel_def color_defs)
  note t = interpolateColor_endpoints_and_rounding [OF v]
  from t have ends: "interpolateColor color_blue color_red (Fin 0) = color_blue"
    "interpolateColor color_blue color_red (Fin 1) = color_red"
    by blast+
  from t have whole: "\<forall>factor. interpolateColor color_blue color_red factor =
             \<lparr>r = Math_round (double_lerp (r color_blue) (r color_red) factor),
              g = Math_round (double_lerp (g color_blue) (g color_red) factor),
              b = Math_round (double_lerp (b color_blue) (b color_red) factor)\<rparr>"
    by blast
  from t have "\<forall>t. t \<noteq> 0 \<longrightarrow> real_of (r color_blue) \<noteq> real_of (r color_red) \<longrightarrow>
        double_lerp (r color_blue) (r color_red) (Fin t) =
          num_add (r color_blue)
            (round_double (t * (real_of (r color_red) - real_of (r color_blue))))"
    by blast
  then have "double_lerp (r color_blue) (r color_red) (Fin (1 / 2)) =
      num_add (Fin 0) (round_double (153 / 2))"
    by (simp add: color_defs)
  also have "\<dots> = Fin (153 / 2)"
    using round_double_halves [of 153] by (simp add: num_add_def)
  finally have "Math_round (double_lerp (r color_blue) (r color_red) (Fin (1 / 2))) = Fin 77"
    by simp
  with whole have half: "r (interpolateColor color_blue color_red (Fin (1 / 2))) = Fin 77"
    by simp
  have "double_lerp (b color_blue) (b color_red) NaN = NaN"
    by (simp add: double_lerp_def num_mul_def num_add_def)
  with whole have "b (interpolateColor color_blue color_red NaN) = NaN" by simp
  with v ends half show ?thesis by blast
qed

text \<open>
  Claim C10. \<^verbatim>\<open>normalizeValue\<close> divides by \<open>max - min\<close> without a guard. When \<open>min\<close>,
  \<open>max\<close> and the value are one and the same number \<open>m\<close>, the quotient is \<open>0 / 0\<close>, the
  result is \<^verbatim>\<open>NaN\<close>, and the clamp by \<^verbatim>\<open>Math.max\<close> and \<^verbatim>\<open>Math.min\<close> does not bring it
  into 0..100: a result in 0..100 for every value needs \<open>min \<noteq> max\<close>. This is the only
  value that goes wrong at equal bounds: for a finite \<open>m\<close>, a \<open>v\<close> below \<open>m\<close> gives the
  quotient \<open>-Infinity\<close> and the result 0, a \<open>v\<close> above \<open>m\<close> gives \<open>Infinity\<close> and 100.
\<close>

theorem normalizeValue_equal_bounds_NaN:
  "normalizeValue m m m = NaN
   \<and> \<not> in_0_100 (normalizeValue m m m)
   \<and> num_div (num_sub (Fin x) (Fin x)) (num_sub (Fin x) (Fin x)) = NaN
   \<and> Math_max (Fin 0) (Math_min (Fin 100) NaN) = NaN
   \<and> (\<forall>v n. is_finite n \<and> representable n \<and> representable v \<and> num_lt v n \<longrightarrow>
         normalizeValue v n n = Fin 0)
   \<and> (\<forall>v n. is_finite n \<and> representable n \<and> representable v \<and> num_lt n v \<longrightarrow>
         normalizeValue v n n = Fin 100)"
proof -
  have "\<not> in_0_100 NaN" by (simp add: in_0_100_def)
  moreover have "num_div (num_sub (Fin x) (Fin x)) (num_sub (Fin x) (Fin x)) = NaN"
    by (simp add: num_sub_same is_finite_def num_div_def)
  moreover have "Math_max (Fin 0) (Math_min (Fin 100) NaN) = NaN"
    by (simp add: Math_max_def Math_min_def)
  ultimately show ?thesis
    using normalizeValue_equal_bounds_below normalizeValue_equal_bounds_above
    by (simp add: normalizeValue_same)
qed

theorem normalizeValue_equal_bounds_NaN_witness:
  "normalizeValue (Fin 7) (Fin 7) (Fin 7) = NaN
   \<and> normalizeValue (Fin 6) (Fin 7) (Fin 7) = Fin 0
   \<and> normalizeValue (Fin 8) (Fin 7) (Fin 7) = Fin 100"
proof -
  note t = normalizeValue_equal_bounds_NaN [of "Fin 7" 7]
  have d: "is_finite (Fin 7)" "representable (Fin 7)" "representable (Fin 6)"
    "representable (Fin 8)"
    using is_double_of_int [of 7] is_double_of_int [of 6] is_double_of_int [of 8]
    by (simp_all add: is_finite_def representable_def)
  from t have "\<forall>v n. is_finite n \<and> representable n \<and> representable v \<and> num_lt v n \<longrightarrow>
         normalizeValue v n n = Fin 0"
    by blast
  with d have "normalizeValue (Fin 6) (Fin 7) (Fin 7) = Fin 0" by simp
  moreover from t have "\<forall>v n. is_finite n \<and> representable n \<and> representable v \<and> num_lt n v \<longrightarrow>
         normalizeValue v n n = Fin 100"
    by blast
  with d have "normalizeValue (Fin 8) (Fin 7) (Fin 7) = Fin 100" by simp
  ultimately show ?thesis using t by blast
qed

section \<open>The controller: lemmas\<close>

declare for_tiles.simps [simp del]

text \<open>What logging, a pause and a status update leave untouched.\<close>

lemma foldl_emit:
  "foldl (\<lambda>w' cb. emit (Subscriber cb en) w') w cbs =
     w\<lparr>trace := trace w @ map (\<lambda>cb. Subscriber cb en) cbs\<rparr>"
  by (induction cbs arbitrary: w) (simp_all add: emit_def)

lemma log_msg_eq:
  "log_msg e msg ty w =
     w\<lparr>trace := trace w
        @ map (\<lambda>cb. Subscriber cb \<lparr>timestamp = toLocaleTimeString e (trace w), message = msg,
                                   type = (case ty of None \<Rightarrow> ''info'' | Some t \<Rightarrow> t)\<rparr>)
            (logCallbacks (ctrl w))
        @ [Console (''['' @ toLocaleTimeString e (trace w) @ ''] '' @ msg)]\<rparr>"
  unfolding log_msg_def Let_def foldl_emit by (simp add: emit_def)

lemma sdk_calls_append: "sdk_calls (xs @ ys) = sdk_calls xs @ sdk_calls ys"
  by (induction xs rule: sdk_calls.induct) simp_all

lemma sdk_calls_subscribers: "sdk_calls (map (\<lambda>cb. Subscriber cb en) cbs) = []"
  by (induction cbs) simp_all

lemma ctrl_log_msg: "ctrl (log_msg e msg ty w) = ctrl w"
  by (simp add: log_msg_eq)

lemma sdk_calls_log_msg: "sdk_calls (trace (log_msg e msg ty w)) = sdk_calls (trace w)"
  by (simp add: log_msg_eq sdk_calls_append sdk_calls_subscribers)

lemma status_updates_log_msg:
  "status_updates (trace (log_msg e msg ty w)) = status_updates (trace w)"
  by (simp add: log_msg_eq status_updates_def filter_map comp_def)

lemma ctrl_emit: "ctrl (emit ev w) = ctrl w"
  by (simp add: emit_def)

lemma sdk_calls_emit_Sdk: "sdk_calls (trace (emit (Sdk c) w)) = sdk_calls (trace w) @ [c]"
  by (simp add: emit_def sdk_calls_append)

lemma sdk_calls_emit_Waited: "sdk_calls (trace (emit (Waited n) w)) = sdk_calls (trace w)"
  by (simp add: emit_def sdk_calls_append)

lemma status_updates_emit:
  "status_updates (trace (emit ev w)) =
     status_updates (trace w) + (if ev = StatusUpdate then 1 else 0)"
  by (simp add: emit_def status_updates_def)

lemma ctrl_countdownInterval: "ctrl (countdownInterval e n c w) = ctrl w"
  by (induction n arbitrary: c w) (simp_all add: Let_def ctrl_log_msg)

lemma sdk_calls_countdownInterval:
  "sdk_calls (trace (countdownInterval e n c w)) = sdk_calls (trace w)"
  by (induction n arbitrary: c w) (simp_all add: Let_def sdk_calls_log_msg)

lemma ctrl_updateConnectionStatus: "ctrl (updateConnectionStatus w) = ctrl w"
  by (simp add: updateConnectionStatus_def Let_def emit_def)

lemma trace_updateConnectionStatus:
  "trace (updateConnectionStatus w) = trace w @ [StatusUpdate]"
  by (simp add: updateConnectionStatus_def Let_def emit_def)

lemma status_updates_updateConnectionStatus:
  "status_updates (trace (updateConnectionStatus w)) = status_updates (trace w) + 1"
  by (simp add: trace_updateConnectionStatus status_updates_def)

lemma sdk_calls_updateConnectionStatus:
  "sdk_calls (trace (updateConnectionStatus w)) = sdk_calls (trace w)"
  by (simp add: trace_updateConnectionStatus sdk_calls_append)

text \<open>The \<^verbatim>\<open>try\<close> block of \<^verbatim>\<open>pairChildTiles\<close> and what its \<^verbatim>\<open>catch\<close> makes of the outcome.\<close>

lemma pairChildTiles_caught:
  assumes "fst (pairChildTiles_try e w) = Inl err"
  shows "pairChildTiles e w =
           (Inl err, log_msg e (''Child tile pairing error: '' @ error_message err) (Some ''error'')
                       (snd (pairChildTiles_try e w)))"
  using assms
  by (cases "pairChildTiles_try e w")
     (simp add: pairChildTiles_def try_catch_def pairChildTiles_catch_def andThen_def lift_def
        throw_def)

lemma pairChildTiles_returned:
  assumes "fst (pairChildTiles_try e w) = Inr x"
  shows "pairChildTiles e w = (Inr x, snd (pairChildTiles_try e w))"
  using assms
  by (cases "pairChildTiles_try e w") (simp add: pairChildTiles_def try_catch_def)

lemma try_no_manager:
  assumes "iTilesManager (ctrl w) = None"
  shows "pairChildTiles_try e w =
           (Inl (Error ''iTiles manager not initialized. Connect to master tile first.''), w)"
  using assms by (simp add: pairChildTiles_try_def andThen_def when_true_def throw_def)

lemma try_not_connected:
  assumes "iTilesManager (ctrl w) \<noteq> None" and "\<not> itilesConnected (ctrl w)"
  shows "pairChildTiles_try e w =
           (Inl (Error ''Master tile not connected. Connect to iTiles first.''), w)"
  using assms by (simp add: pairChildTiles_try_def andThen_def when_true_def throw_def)

lemmas run_simps =
  andThen_def when_true_def throw_def succeed_def lift_def sleep_def await_call_def
  for_tiles.simps ctrl_log_msg ctrl_emit ctrl_countdownInterval
  sdk_calls_log_msg sdk_calls_emit_Sdk sdk_calls_emit_Waited sdk_calls_countdownInterval

lemma try_success:
  assumes "iTilesManager (ctrl w) \<noteq> None" and "itilesConnected (ctrl w)"
    and "\<forall>c\<in>set pairing_commands. sdk e c = None"
  shows "fst (pairChildTiles_try e w) = Inr True \<and>
         sdk_calls (trace (snd (pairChildTiles_try e w))) = sdk_calls (trace w) @ pairing_commands"
  using assms
  by (simp add: pairChildTiles_try_def pairing_commands_def run_simps del: One_nat_def)

lemma try_failure:
  assumes "iTilesManager (ctrl w) \<noteq> None" and "itilesConnected (ctrl w)"
    and "k < length pairing_commands"
    and "\<forall>c\<in>set (take k pairing_commands). sdk e c = None"
    and "sdk e (pairing_commands ! k) = Some err"
  shows "fst (pairChildTiles_try e w) = Inl err \<and>
         sdk_calls (trace (snd (pairChildTiles_try e w))) =
           sdk_calls (trace w) @ take (Suc k) pairing_commands"
proof -
  from assms(3) have "k < 9" by (simp add: pairing_commands_def)
  then consider "k = 0 \<or> k = 1" | "2 \<le> k \<and> k \<le> 4" | "5 \<le> k \<and> k \<le> 8"
    by linarith
  then show ?thesis
  proof cases
    case 1
    with assms show ?thesis
      by (auto simp add: pairChildTiles_try_def pairing_commands_def run_simps)
  next
    case 2
    then consider "k = 2" | "k = 3" | "k = 4" by linarith
    then show ?thesis
      using assms
      by cases (simp_all add: pairChildTiles_try_def pairing_commands_def run_simps
          del: One_nat_def)
  next
    case 3
    then consider "k = 5" | "k = 6" | "k = 7" | "k = 8" by linarith
    then show ?thesis
      using assms
      by cases (simp_all add: pairChildTiles_try_def pairing_commands_def run_simps
          del: One_nat_def)
  qed
qed

text \<open>The four ways \<^verbatim>\<open>disconnect\<close> can go.\<close>

lemmas disconnect_simps =
  disconnect_def andThen_def when_true_def throw_def succeed_def lift_def await_call_def
  tile_session_def sensor_session_def
  ctrl_log_msg ctrl_emit ctrl_updateConnectionStatus
  sdk_calls_log_msg sdk_calls_emit_Sdk sdk_calls_updateConnectionStatus
  status_updates_log_msg status_updates_emit status_updates_updateConnectionStatus

lemma disconnect_calls:
  "sdk_calls (trace (snd (disconnect e w))) =
     sdk_calls (trace w)
     @ (if tile_session w then [manager_disconnect] else [])
     @ (if sensor_session w \<and> \<not> (tile_session w \<and> sdk e manager_disconnect \<noteq> None)
        then [triggerStopReading] else [])"
  by (cases "sdk e manager_disconnect"; cases "sdk e triggerStopReading")
     (simp_all add: disconnect_simps)

lemma disconnect_returns:
  assumes "\<not> (tile_session w \<and> sdk e manager_disconnect \<noteq> None)"
    and "\<not> (sensor_session w \<and> sdk e triggerStopReading \<noteq> None)"
  shows "disconnect e w =
           (Inr (), log_msg e ''Disconnected from all devices'' (Some ''info'')
                      (updateConnectionStatus (after_sensor_teardown (after_tile_teardown w))))"
  using assms
  by (cases "sdk e manager_disconnect"; cases "sdk e triggerStopReading")
    (auto simp add: disconnect_def andThen_def when_true_def throw_def succeed_def lift_def
      await_call_def tile_session_def sensor_session_def after_tile_teardown_def
      after_sensor_teardown_def ctrl_emit)

lemma disconnect_tile_throws:
  assumes "tile_session w" and "sdk e manager_disconnect = Some err"
  shows "disconnect e w = (Inl err, emit (Sdk manager_disconnect) w)"
  using assms by (simp add: disconnect_simps)

lemma disconnect_sensor_throws:
  assumes "\<not> (tile_session w \<and> sdk e manager_disconnect \<noteq> None)"
    and "sensor_session w" and "sdk e triggerStopReading = Some err"
  shows "disconnect e w = (Inl err, emit (Sdk triggerStopReading) (after_tile_teardown w))"
  using assms
  by (cases "sdk e manager_disconnect")
    (auto simp add: disconnect_def andThen_def when_true_def throw_def succeed_def lift_def
      await_call_def tile_session_def sensor_session_def after_tile_teardown_def ctrl_emit)

text \<open>What the two teardowns leave of the controller and of the trace.\<close>

lemma ctrl_after_teardowns:
  "ctrl (after_sensor_teardown (after_tile_teardown w)) =
     (ctrl w)\<lparr>itilesConnected := itilesConnected (ctrl w) \<and> \<not> tile_session w,
              kiwriousConnected := kiwriousConnected (ctrl w) \<and> \<not> sensor_session w\<rparr>"
  by (simp add: after_tile_teardown_def after_sensor_teardown_def tile_session_def
      sensor_session_def ctrl_emit)

lemma ctrl_after_tile_teardown:
  "ctrl (after_tile_teardown w) =
     (ctrl w)\<lparr>itilesConnected := itilesConnected (ctrl w) \<and> \<not> tile_session w\<rparr>"
  by (simp add: after_tile_teardown_def tile_session_def)

lemma trace_after_tile_teardown:
  "trace (after_tile_teardown w) =
     trace w @ (if tile_session w then [Sdk manager_disconnect] else [])"
  by (simp add: after_tile_teardown_def emit_def)

lemma trace_emit: "trace (emit ev w) = trace w @ [ev]"
  by (simp add: emit_def)

lemma status_updates_after_teardowns:
  "status_updates (trace (after_sensor_teardown (after_tile_teardown w))) =
     status_updates (trace w)"
  by (simp add: after_tile_teardown_def after_sensor_teardown_def status_updates_def emit_def)

section \<open>The controller: properties\<close>

text \<open>
  Claim C1. In every state of the controller in which the tile-manager handle is null, or
  the handle is set and the tile-connected flag is false, \<^verbatim>\<open>pairChildTiles\<close> fails at
  once with a descriptive error and issues no device command: the error names the
  precondition that does not hold, the only thing done before it reaches the caller is
  the log of the error, and the SDK calls of the trace are those made before.
\<close>

theorem pairChildTiles_fails_fast:
  assumes "iTilesManager (ctrl w) = None \<or> \<not> itilesConnected (ctrl w)"
  shows "(let m = (if iTilesManager (ctrl w) = None
                   then ''iTiles manager not initialized. Connect to master tile first.''
                   else ''Master tile not connected. Connect to iTiles first.'')
          in pairChildTiles e w =
               (Inl (Error m), log_msg e (''Child tile pairing error: '' @ m) (Some ''error'') w))
         \<and> sdk_calls (trace (snd (pairChildTiles e w))) = sdk_calls (trace w)"
proof (cases "iTilesManager (ctrl w) = None")
  case True
  then have "fst (pairChildTiles_try e w) =
      Inl (Error ''iTiles manager not initialized. Connect to master tile first.'')"
    by (simp add: try_no_manager)
  from pairChildTiles_caught [OF this] True show ?thesis
    by (simp add: try_no_manager sdk_calls_log_msg)
next
  case False
  with assms have nc: "\<not> itilesConnected (ctrl w)" by simp
  from False nc have "fst (pairChildTiles_try e w) =
      Inl (Error ''Master tile not connected. Connect to iTiles first.'')"
    by (simp add: try_not_connected)
  from pairChildTiles_caught [OF this] False nc show ?thesis
    by (simp add: try_not_connected sdk_calls_log_msg)
qed

theorem pairChildTiles_fails_fast_witness:
  "iTilesManager (ctrl fresh_world) = None
   \<and> fst (pairChildTiles example_env fresh_world) =
       Inl (Error ''iTiles manager not initialized. Connect to master tile first.'')
   \<and> sdk_calls (trace (snd (pairChildTiles example_env fresh_world))) = []"
proof -
  have h: "iTilesManager (ctrl fresh_world) = None"
    by (simp add: fresh_world_def new_AppController_def)
  then have "iTilesManager (ctrl fresh_world) = None \<or> \<not> itilesConnected (ctrl fresh_world)"
    by simp
  note t = pairChildTiles_fails_fast [OF this, of example_env]
  from t [THEN conjunct1] h
  have "pairChildTiles example_env fresh_world =
      (Inl (Error ''iTiles manager not initialized. Connect to master tile first.''),
       log_msg example_env
         (''Child tile pairing error: ''
          @ ''iTiles manager not initialized. Connect to master tile first.'')
         (Some ''error'') fresh_world)"
    by (simp add: Let_def)
  then have "fst (pairChildTiles example_env fresh_world) =
      Inl (Error ''iTiles manager not initialized. Connect to master tile first.'')"
    by simp
  moreover from t [THEN conjunct2]
  have "sdk_calls (trace (snd (pairChildTiles example_env fresh_world))) = []"
    by (simp add: fresh_world_def)
  ultimately show ?thesis using h by blast
qed

text \<open>
  Claim C2. When the tile-manager handle is set and the tile-connected flag is true,
  \<^verbatim>\<open>pairChildTiles\<close> issues its device commands in this order: \<^verbatim>\<open>queryOnlineTiles\<close> on
  all tiles, \<^verbatim>\<open>confirmAssignment\<close> on all tiles, one \<^verbatim>\<open>gameInProgress\<close> activation for
  each tile index 1 to 6 in ascending order, then \<^verbatim>\<open>queryPairedTiles\<close>. If none of these
  calls throws, all nine are made and the result is \<^verbatim>\<open>true\<close>. If one throws, the calls
  made are those up to and including it, none after it, and the error reaches the caller
  after the controller has logged it.
\<close>

theorem pairChildTiles_sequence:
  assumes "iTilesManager (ctrl w) \<noteq> None" and "itilesConnected (ctrl w)"
  shows "((\<forall>c\<in>set pairing_commands. sdk e c = None) \<longrightarrow>
            fst (pairChildTiles e w) = Inr True \<and>
            sdk_calls (trace (snd (pairChildTiles e w))) = sdk_calls (trace w) @ pairing_commands)
       \<and> (\<forall>k err. k < length pairing_commands \<longrightarrow>
            (\<forall>c\<in>set (take k pairing_commands). sdk e c = None) \<longrightarrow>
            sdk e (pairing_commands ! k) = Some err \<longrightarrow>
              pairChildTiles e w =
                (Inl err,
                 log_msg e (''Child tile pairing error: '' @ error_message err) (Some ''error'')
                   (snd (pairChildTiles_try e w))) \<and>
              sdk_calls (trace (snd (pairChildTiles e w))) =
                sdk_calls (trace w) @ take (Suc k) pairing_commands)"
proof (intro conjI impI allI)
  assume ok: "\<forall>c\<in>set pairing_commands. sdk e c = None"
  note run = try_success [OF assms ok]
  from run have "pairChildTiles e w = (Inr True, snd (pairChildTiles_try e w))"
    by (simp add: pairChildTiles_returned)
  with run show "fst (pairChildTiles e w) = Inr True"
    and "sdk_calls (trace (snd (pairChildTiles e w))) = sdk_calls (trace w) @ pairing_commands"
    by simp_all
next
  fix k err
  assume "k < length pairing_commands"
    and "\<forall>c\<in>set (take k pairing_commands). sdk e c = None"
    and "sdk e (pairing_commands ! k) = Some err"
  then have run: "fst (pairChildTiles_try e w) = Inl err \<and>
      sdk_calls (trace (snd (pairChildTiles_try e w))) =
        sdk_calls (trace w) @ take (Suc k) pairing_commands"
    by (rule try_failure [OF assms])
  then show caught: "pairChildTiles e w =
      (Inl err,
       log_msg e (''Child tile pairing error: '' @ error_message err) (Some ''error'')
         (snd (pairChildTiles_try e w)))"
    by (simp add: pairChildTiles_caught)
  from run show "sdk_calls (trace (snd (pairChildTiles e w))) =
      sdk_calls (trace w) @ take (Suc k) pairing_commands"
    unfolding caught by (simp add: sdk_calls_log_msg)
qed

theorem pairChildTiles_sequence_witness:
  "fst (pairChildTiles example_env connected_world) = Inr True
   \<and> sdk_calls (trace (snd (pairChildTiles example_env connected_world))) = pairing_commands
   \<and> fst (pairChildTiles env_third_tile_throws connected_world) =
       Inl (Error ''GATT operation failed'')
   \<and> sdk_calls (trace (snd (pairChildTiles env_third_tile_throws connected_world))) =
       [queryOnlineTiles SELECT_ITILE_ALL, confirmAssignment SELECT_ITILE_ALL,
        gameInProgress GAME_STATUS_IN_GAME 1, gameInProgress GAME_STATUS_IN_GAME 2,
        gameInProgress GAME_STATUS_IN_GAME 3]"
proof -
  have m: "iTilesManager (ctrl connected_world) \<noteq> None" "itilesConnected (ctrl connected_world)"
    by (simp_all add: connected_world_def new_AppController_def)
  have t: "trace connected_world = []"
    by (simp add: connected_world_def)
  have ok: "\<forall>c\<in>set pairing_commands. sdk example_env c = None"
    by (simp add: example_env_def)
  from pairChildTiles_sequence [OF m, of example_env] ok t
  have good: "fst (pairChildTiles example_env connected_world) = Inr True
      \<and> sdk_calls (trace (snd (pairChildTiles example_env connected_world))) = pairing_commands"
    by simp
  have k: "(4::nat) < length pairing_commands"
    "\<forall>c\<in>set (take 4 pairing_commands). sdk env_third_tile_throws c = None"
    "sdk env_third_tile_throws (pairing_commands ! 4) = Some (Error ''GATT operation failed'')"
    by (simp_all add: pairing_commands_def env_third_tile_throws_def)
  from pairChildTiles_sequence [OF m, of env_third_tile_throws]
  have "\<forall>k err. k < length pairing_commands \<longrightarrow>
            (\<forall>c\<in>set (take k pairing_commands). sdk env_third_tile_throws c = None) \<longrightarrow>
            sdk env_third_tile_throws (pairing_commands ! k) = Some err \<longrightarrow>
              pairChildTiles env_third_tile_throws connected_world =
                (Inl err,
                 log_msg env_third_tile_throws
                   (''Child tile pairing error: '' @ error_message err) (Some ''error'')
                   (snd (pairChildTiles_try env_third_tile_throws connected_world))) \<and>
              sdk_calls (trace (snd (pairChildTiles env_third_tile_throws connected_world))) =
                sdk_calls (trace connected_world) @ take (Suc k) pairing_commands"
    by blast
  with k have bad: "pairChildTiles env_third_tile_throws connected_world =
                (Inl (Error ''GATT operation failed''),
                 log_msg env_third_tile_throws
                   (''Child tile pairing error: '' @ error_message (Error ''GATT operation failed''))
                   (Some ''error'')
                   (snd (pairChildTiles_try env_third_tile_throws connected_world))) \<and>
              sdk_calls (trace (snd (pairChildTiles env_third_tile_throws connected_world))) =
                sdk_calls (trace connected_world) @ take (Suc 4) pairing_commands"
    by blast
  from bad [THEN conjunct1]
  have "fst (pairChildTiles env_third_tile_throws connected_world) =
       Inl (Error ''GATT operation failed'')"
    by simp
  moreover from bad [THEN conjunct2] t
  have "sdk_calls (trace (snd (pairChildTiles env_third_tile_throws connected_world))) =
       [queryOnlineTiles SELECT_ITILE_ALL, confirmAssignment SELECT_ITILE_ALL,
        gameInProgress GAME_STATUS_IN_GAME 1, gameInProgress GAME_STATUS_IN_GAME 2,
        gameInProgress GAME_STATUS_IN_GAME 3]"
    by (simp add: pairing_commands_def)
  ultimately show ?thesis using good by blast
qed

text \<open>
  Claim C3. The connection-state callback that \<^verbatim>\<open>connectITiles\<close> registers sets the
  tile-connected flag to true on state code 2 and to false on state code 0, and updates
  the status display once on each of the two; on every other state code, that is every
  value that \<^verbatim>\<open>===\<close> equates neither with 2 nor with 0, it changes nothing at all. In
  particular, after the states 2 and then 0 the flag has been true and is false, and the
  status has been updated exactly twice. The negative zero is state code 0, as \<^verbatim>\<open>===\<close>
  has it.
\<close>

theorem connectionStateListener_codes:
  "(let w1 = connectionStateListener e (Fin 2) w
    in itilesConnected (ctrl w1) \<and> status_updates (trace w1) = status_updates (trace w) + 1)
   \<and> (let w0 = connectionStateListener e (Fin 0) w
    in \<not> itilesConnected (ctrl w0) \<and> status_updates (trace w0) = status_updates (trace w) + 1)
   \<and> (\<forall>s. \<not> strict_equal s (Fin 2) \<and> \<not> strict_equal s (Fin 0) \<longrightarrow>
         connectionStateListener e s w = w)
   \<and> (let w1 = connectionStateListener e (Fin 2) w; w2 = connectionStateListener e (Fin 0) w1
    in itilesConnected (ctrl w1) \<and> \<not> itilesConnected (ctrl w2)
       \<and> status_updates (trace w2) = status_updates (trace w) + 2)
   \<and> (\<forall>s. strict_equal s (Fin 2) = (s = Fin 2))
   \<and> (\<forall>s. strict_equal s (Fin 0) = (s = Fin 0 \<or> s = NZero))
   \<and> connectionStateListener e NZero w = connectionStateListener e (Fin 0) w"
proof -
  have two: "\<forall>s. strict_equal s (Fin 2) = (s = Fin 2)"
  proof
    fix s show "strict_equal s (Fin 2) = (s = Fin 2)"
      by (cases s) (simp_all add: strict_equal_def)
  qed
  have zero: "\<forall>s. strict_equal s (Fin 0) = (s = Fin 0 \<or> s = NZero)"
  proof
    fix s show "strict_equal s (Fin 0) = (s = Fin 0 \<or> s = NZero)"
      by (cases s) (simp_all add: strict_equal_def)
  qed
  show ?thesis
    unfolding connectionStateListener_def two [rule_format] zero [rule_format]
    by (simp add: Let_def ctrl_updateConnectionStatus ctrl_log_msg
        status_updates_updateConnectionStatus status_updates_log_msg)
qed

theorem connectionStateListener_codes_witness:
  "connectionStateListener example_env (Fin 1) fresh_world = fresh_world
   \<and> connectionStateListener example_env NaN fresh_world = fresh_world
   \<and> itilesConnected (ctrl (connectionStateListener example_env (Fin 2) fresh_world))
   \<and> \<not> itilesConnected (ctrl (connectionStateListener example_env (Fin 0)
         (connectionStateListener example_env (Fin 2) fresh_world)))
   \<and> status_updates (trace (connectionStateListener example_env (Fin 0)
         (connectionStateListener example_env (Fin 2) fresh_world))) = 2"
proof -
  note t = connectionStateListener_codes [of example_env fresh_world]
  have ne: "\<not> strict_equal (Fin 1) (Fin 2)" "\<not> strict_equal (Fin 1) (Fin 0)"
    "\<not> strict_equal NaN (Fin 2)" "\<not> strict_equal NaN (Fin 0)"
    by (simp_all add: strict_equal_def)
  from t have "\<forall>s. \<not> strict_equal s (Fin 2) \<and> \<not> strict_equal s (Fin 0) \<longrightarrow>
      connectionStateListener example_env s fresh_world = fresh_world"
    by blast
  with ne have "connectionStateListener example_env (Fin 1) fresh_world = fresh_world"
    "connectionStateListener example_env NaN fresh_world = fresh_world"
    by blast+
  moreover have "status_updates (trace fresh_world) = 0"
    by (simp add: fresh_world_def status_updates_def)
  with t [THEN conjunct2, THEN conjunct2, THEN conjunct2, THEN conjunct1]
  have "itilesConnected (ctrl (connectionStateListener example_env (Fin 2) fresh_world))
   \<and> \<not> itilesConnected (ctrl (connectionStateListener example_env (Fin 0)
         (connectionStateListener example_env (Fin 2) fresh_world)))
   \<and> status_updates (trace (connectionStateListener example_env (Fin 0)
         (connectionStateListener example_env (Fin 2) fresh_world))) = 2"
    by (simp add: Let_def)
  ultimately show ?thesis by blast
qed

text \<open>
  Claim C4, as stated: \<^verbatim>\<open>disconnect\<close> does not fail when the teardown of one subsystem
  throws, and the other subsystem is still torn down. It fails on the code: with both
  sessions up and a tile manager whose \<^verbatim>\<open>disconnect\<close> throws, the call fails with
  that error, \<^verbatim>\<open>triggerStopReading\<close> is never called, both flags stay set, the status is
  not refreshed and nothing is logged.
\<close>

theorem disconnect_teardown_throws_counterexample:
  "tile_session connected_world \<and> sensor_session connected_world
   \<and> sdk env_tile_teardown_throws triggerStopReading = None
   \<and> fst (disconnect env_tile_teardown_throws connected_world) =
       Inl (Error ''GATT Server is disconnected'')
   \<and> trace (snd (disconnect env_tile_teardown_throws connected_world)) = [Sdk manager_disconnect]
   \<and> kiwriousConnected (ctrl (snd (disconnect env_tile_teardown_throws connected_world)))
   \<and> itilesConnected (ctrl (snd (disconnect env_tile_teardown_throws connected_world)))"
  by (simp add: disconnect_def andThen_def when_true_def await_call_def emit_def
      tile_session_def sensor_session_def connected_world_def new_AppController_def
      env_tile_teardown_throws_def)

text \<open>
  Claim C4, amended. \<^verbatim>\<open>disconnect\<close> tears down the tile session only if both the tile
  handle and the tile-connected flag are set, and the sensor session only if both the
  sensor handle and the sensor-connected flag are set. When no teardown throws, it clears
  the flag of each session it tore down, changes nothing else of the controller,
  refreshes the status once and logs the completion. A teardown that throws makes the
  whole call fail with that error at once, and the call to the SDK is the last thing
  that happened: if it is the tile teardown, the state is the one before the call but for
  that one SDK call in the trace, so the tile flag stays set and the sensor session is
  not torn down; if it is the sensor teardown, the tile session has been torn down and
  its flag cleared where it was up, the sensor flag stays set, and the trace ends with
  the call of \<^verbatim>\<open>triggerStopReading\<close>. In both cases the status is not refreshed and
  nothing is logged.
\<close>

theorem disconnect_guarded:
  "sdk_calls (trace (snd (disconnect e w))) =
     sdk_calls (trace w)
     @ (if tile_session w then [manager_disconnect] else [])
     @ (if sensor_session w \<and> \<not> (tile_session w \<and> sdk e manager_disconnect \<noteq> None)
        then [triggerStopReading] else [])
   \<and> (\<not> (tile_session w \<and> sdk e manager_disconnect \<noteq> None) \<longrightarrow>
      \<not> (sensor_session w \<and> sdk e triggerStopReading \<noteq> None) \<longrightarrow>
        disconnect e w =
          (Inr (), log_msg e ''Disconnected from all devices'' (Some ''info'')
                     (updateConnectionStatus (after_sensor_teardown (after_tile_teardown w))))
        \<and> ctrl (snd (disconnect e w)) =
            (ctrl w)\<lparr>itilesConnected := itilesConnected (ctrl w) \<and> \<not> tile_session w,
                     kiwriousConnected := kiwriousConnected (ctrl w) \<and> \<not> sensor_session w\<rparr>
        \<and> status_updates (trace (snd (disconnect e w))) = status_updates (trace w) + 1)
   \<and> (\<forall>err. tile_session w \<longrightarrow> sdk e manager_disconnect = Some err \<longrightarrow>
        disconnect e w = (Inl err, emit (Sdk manager_disconnect) w)
        \<and> ctrl (snd (disconnect e w)) = ctrl w
        \<and> trace (snd (disconnect e w)) = trace w @ [Sdk manager_disconnect])
   \<and> (\<forall>err. \<not> (tile_session w \<and> sdk e manager_disconnect \<noteq> None) \<longrightarrow>
        sensor_session w \<longrightarrow> sdk e triggerStopReading = Some err \<longrightarrow>
          disconnect e w = (Inl err, emit (Sdk triggerStopReading) (after_tile_teardown w))
          \<and> ctrl (snd (disconnect e w)) =
              (ctrl w)\<lparr>itilesConnected := itilesConnected (ctrl w) \<and> \<not> tile_session w\<rparr>
          \<and> trace (snd (disconnect e w)) =
              trace w @ (if tile_session w then [Sdk manager_disconnect] else [])
                @ [Sdk triggerStopReading])"
proof -
  have "\<not> (tile_session w \<and> sdk e manager_disconnect \<noteq> None) \<longrightarrow>
      \<not> (sensor_session w \<and> sdk e triggerStopReading \<noteq> None) \<longrightarrow>
        disconnect e w =
          (Inr (), log_msg e ''Disconnected from all devices'' (Some ''info'')
                     (updateConnectionStatus (after_sensor_teardown (after_tile_teardown w))))
        \<and> ctrl (snd (disconnect e w)) =
            (ctrl w)\<lparr>itilesConnected := itilesConnected (ctrl w) \<and> \<not> tile_session w,
                     kiwriousConnected := kiwriousConnected (ctrl w) \<and> \<not> sensor_session w\<rparr>
        \<and> status_updates (trace (snd (disconnect e w))) = status_updates (trace w) + 1"
    by (simp add: disconnect_returns ctrl_log_msg ctrl_updateConnectionStatus
        ctrl_after_teardowns status_updates_log_msg status_updates_updateConnectionStatus
        status_updates_after_teardowns)
  moreover have "\<forall>err. tile_session w \<longrightarrow> sdk e manager_disconnect = Some err \<longrightarrow>
        disconnect e w = (Inl err, emit (Sdk manager_disconnect) w)
        \<and> ctrl (snd (disconnect e w)) = ctrl w
        \<and> trace (snd (disconnect e w)) = trace w @ [Sdk manager_disconnect]"
    by (simp add: disconnect_tile_throws emit_def)
  moreover have "\<forall>err. \<not> (tile_session w \<and> sdk e manager_disconnect \<noteq> None) \<longrightarrow>
        sensor_session w \<longrightarrow> sdk e triggerStopReading = Some err \<longrightarrow>
          disconnect e w = (Inl err, emit (Sdk triggerStopReading) (after_tile_teardown w))
          \<and> ctrl (snd (disconnect e w)) =
              (ctrl w)\<lparr>itilesConnected := itilesConnected (ctrl w) \<and> \<not> tile_session w\<rparr>
          \<and> trace (snd (disconnect e w)) =
              trace w @ (if tile_session w then [Sdk manager_disconnect] else [])
                @ [Sdk triggerStopReading]"
    by (simp add: disconnect_sensor_throws ctrl_emit ctrl_after_tile_teardown
        trace_emit trace_after_tile_teardown)
  ultimately show ?thesis using disconnect_calls [of e w] by blast
qed

theorem disconnect_guarded_witness:
  "tile_session connected_world \<and> sensor_session connected_world
   \<and> fst (disconnect example_env connected_world) = Inr ()
   \<and> sdk_calls (trace (snd (disconnect example_env connected_world))) =
       [manager_disconnect, triggerStopReading]
   \<and> \<not> itilesConnected (ctrl (snd (disconnect example_env connected_world)))
   \<and> \<not> kiwriousConnected (ctrl (snd (disconnect example_env connected_world)))
   \<and> sdk_calls (trace (snd (disconnect example_env fresh_world))) = []
   \<and> disconnect env_tile_teardown_throws connected_world =
       (Inl (Error ''GATT Server is disconnected''), emit (Sdk manager_disconnect) connected_world)
   \<and> fst (disconnect env_sensor_teardown_throws connected_world) =
       Inl (Error ''The port is closed'')
   \<and> trace (snd (disconnect env_sensor_teardown_throws connected_world)) =
       [Sdk manager_disconnect, Sdk triggerStopReading]
   \<and> \<not> itilesConnected (ctrl (snd (disconnect env_sensor_teardown_throws connected_world)))
   \<and> kiwriousConnected (ctrl (snd (disconnect env_sensor_teardown_throws connected_world)))"
proof -
  have s: "tile_session connected_world" "sensor_session connected_world"
    by (simp_all add: tile_session_def sensor_session_def connected_world_def
        new_AppController_def)
  have k: "kiwriousConnected (ctrl connected_world)" "trace connected_world = []"
    by (simp_all add: connected_world_def new_AppController_def)
  have f: "\<not> tile_session fresh_world" "\<not> sensor_session fresh_world"
    "sdk_calls (trace fresh_world) = []"
    by (simp_all add: tile_session_def sensor_session_def fresh_world_def new_AppController_def)
  have ok: "sdk example_env manager_disconnect = None" "sdk example_env triggerStopReading = None"
    "sdk_calls (trace connected_world) = []"
    by (simp_all add: example_env_def connected_world_def)
  have bad: "sdk env_tile_teardown_throws manager_disconnect =
      Some (Error ''GATT Server is disconnected'')"
    by (simp add: env_tile_teardown_throws_def)
  have bad2: "sdk env_sensor_teardown_throws manager_disconnect = None"
    "sdk env_sensor_teardown_throws triggerStopReading = Some (Error ''The port is closed'')"
    by (simp_all add: env_sensor_teardown_throws_def)
  note t = disconnect_guarded [of example_env connected_world]
  from t [THEN conjunct1] s ok
  have calls: "sdk_calls (trace (snd (disconnect example_env connected_world))) =
       [manager_disconnect, triggerStopReading]"
    by simp
  from t [THEN conjunct2, THEN conjunct1] ok
  have all: "disconnect example_env connected_world =
          (Inr (), log_msg example_env ''Disconnected from all devices'' (Some ''info'')
                     (updateConnectionStatus
                        (after_sensor_teardown (after_tile_teardown connected_world))))
        \<and> ctrl (snd (disconnect example_env connected_world)) =
            (ctrl connected_world)
              \<lparr>itilesConnected := itilesConnected (ctrl connected_world)
                  \<and> \<not> tile_session connected_world,
               kiwriousConnected := kiwriousConnected (ctrl connected_world)
                  \<and> \<not> sensor_session connected_world\<rparr>
        \<and> status_updates (trace (snd (disconnect example_env connected_world))) =
            status_updates (trace connected_world) + 1"
    by blast
  from all [THEN conjunct1]
  have r: "fst (disconnect example_env connected_world) = Inr ()"
    by simp
  note c = all [THEN conjunct2, THEN conjunct1]
  from c s
  have flags: "\<not> itilesConnected (ctrl (snd (disconnect example_env connected_world)))"
    "\<not> kiwriousConnected (ctrl (snd (disconnect example_env connected_world)))"
    by simp_all
  from disconnect_guarded [of example_env fresh_world, THEN conjunct1] f
  have none: "sdk_calls (trace (snd (disconnect example_env fresh_world))) = []"
    by simp
  from disconnect_guarded [of env_tile_teardown_throws connected_world] s bad
  have tile: "disconnect env_tile_teardown_throws connected_world =
       (Inl (Error ''GATT Server is disconnected''), emit (Sdk manager_disconnect) connected_world)"
    by blast
  from disconnect_guarded [of env_sensor_teardown_throws connected_world,
      THEN conjunct2, THEN conjunct2, THEN conjunct2] s bad2
  have sensor: "disconnect env_sensor_teardown_throws connected_world =
        (Inl (Error ''The port is closed''),
         emit (Sdk triggerStopReading) (after_tile_teardown connected_world))
      \<and> ctrl (snd (disconnect env_sensor_teardown_throws connected_world)) =
          (ctrl connected_world)\<lparr>itilesConnected := itilesConnected (ctrl connected_world)
              \<and> \<not> tile_session connected_world\<rparr>
      \<and> trace (snd (disconnect env_sensor_teardown_throws connected_world)) =
          trace connected_world
            @ (if tile_session connected_world then [Sdk manager_disconnect] else [])
            @ [Sdk triggerStopReading]"
    by blast
  from sensor [THEN conjunct1] have "fst (disconnect env_sensor_teardown_throws connected_world) =
       Inl (Error ''The port is closed'')"
    by simp
  moreover from sensor [THEN conjunct2] s k
  have "trace (snd (disconnect env_sensor_teardown_throws connected_world)) =
       [Sdk manager_disconnect, Sdk triggerStopReading]"
    "\<not> itilesConnected (ctrl (snd (disconnect env_sensor_teardown_throws connected_world)))"
    "kiwriousConnected (ctrl (snd (disconnect env_sensor_teardown_throws connected_world)))"
    by simp_all
  ultimately show ?thesis using s calls r flags none tile by blast
qed

text \<open>
  Claim C5. With \<open>N\<close> log subscribers registered, one call \<^verbatim>\<open>log(message, type)\<close> calls
  each of the \<open>N\<close> subscribers exactly once, in the order of their registration, and
  gives every one the same entry: its message and type are the arguments of the call
  (\<^verbatim>\<open>'info'\<close> when the type is left out) and its timestamp is the local time string read
  at the call. The entry then goes to the console; the controller is not changed, so the
  entry is not stored on it. \<^verbatim>\<open>onLog\<close> registers a subscriber behind those already there.
\<close>

theorem log_fans_out:
  "log_msg e msg ty w =
     (let logEntry = \<lparr>timestamp = toLocaleTimeString e (trace w), message = msg,
                      type = (case ty of None \<Rightarrow> ''info'' | Some t \<Rightarrow> t)\<rparr>
      in w\<lparr>trace := trace w
             @ map (\<lambda>cb. Subscriber cb logEntry) (logCallbacks (ctrl w))
             @ [Console (''['' @ timestamp logEntry @ ''] '' @ msg)]\<rparr>)
   \<and> ctrl (log_msg e msg ty w) = ctrl w
   \<and> logCallbacks (ctrl (onLog cb w)) = logCallbacks (ctrl w) @ [cb]"
  by (simp add: log_msg_eq onLog_def)

theorem log_fans_out_witness:
  "trace (log_msg example_env ''hello'' (Some ''info'') connected_world) =
     [Subscriber (Callback 0) \<lparr>timestamp = ''10:15:00'', message = ''hello'', type = ''info''\<rparr>,
      Subscriber (Callback 1) \<lparr>timestamp = ''10:15:00'', message = ''hello'', type = ''info''\<rparr>,
      Console ''[10:15:00] hello'']
   \<and> ctrl (log_msg example_env ''hello'' (Some ''info'') connected_world) = ctrl connected_world"
proof -
  have c: "logCallbacks (ctrl connected_world) = [Callback 0, Callback 1]"
    "trace connected_world = []"
    by (simp_all add: connected_world_def new_AppController_def)
  have ts: "toLocaleTimeString example_env [] = ''10:15:00''"
    by (simp add: example_env_def)
  from log_fans_out [of example_env "''hello''" "Some ''info''" connected_world, THEN conjunct1]
    c ts
  have "log_msg example_env ''hello'' (Some ''info'') connected_world =
      connected_world\<lparr>trace :=
        [Subscriber (Callback 0)
           \<lparr>timestamp = ''10:15:00'', message = ''hello'', type = ''info''\<rparr>,
         Subscriber (Callback 1)
           \<lparr>timestamp = ''10:15:00'', message = ''hello'', type = ''info''\<rparr>,
         Console ''[10:15:00] hello'']\<rparr>"
    by (simp add: Let_def)
  then show ?thesis by simp
qed

end
